theory Spec2Isabelle
  imports Main
begin

section \<open>Status values and call outcomes\<close>

text \<open>
  A \<open>Status\<close> carries an error code and a reason string. The only codes the two
  translation units distinguish are \<open>OK\<close> and \<open>CallbackCanceled\<close>; every other
  code is kept by its number.
\<close>

datatype error_code = OK | CallbackCanceled | ErrorCode nat

record status =
  st_code :: error_code
  st_reason :: string

definition isOK :: "status \<Rightarrow> bool" where
  "isOK st = (st_code st = OK)"

text \<open>
  What a call on the catalog does: it waits on a condition variable whose predicate is
  false (\<open>Blocked\<close>), it throws the status handed to \<open>uassertStatusOK\<close>
  (\<open>Threw\<close>), an \<open>invariant\<close> fails and the process aborts (\<open>Fatal\<close>), or it
  returns.
\<close>

datatype 'a outcome = Blocked | Threw status | Fatal | Returned 'a

section \<open>The containers of the catalog\<close>

text \<open>
  The inner container is an ordered map: its entries are kept in the order of its
  comparator \<open>lt\<close>, two keys are the same key when neither comes before the other, and
  \<open>begin()\<close> is the first entry of that order.
\<close>

fun omap_find :: "('k \<Rightarrow> 'k \<Rightarrow> bool) \<Rightarrow> 'k \<Rightarrow> ('k \<times> 'v) list \<Rightarrow> 'v option" where
  "omap_find lt k [] = None"
| "omap_find lt k ((k', v') # xs) =
     (if \<not> lt k k' \<and> \<not> lt k' k then Some v' else omap_find lt k xs)"

fun omap_assign :: "('k \<Rightarrow> 'k \<Rightarrow> bool) \<Rightarrow> 'k \<Rightarrow> 'v \<Rightarrow> ('k \<times> 'v) list \<Rightarrow> ('k \<times> 'v) list" where
  "omap_assign lt k v [] = [(k, v)]"
| "omap_assign lt k v ((k', v') # xs) =
     (if lt k k' then (k, v) # (k', v') # xs
      else if lt k' k then (k', v') # omap_assign lt k v xs
      else (k', v) # xs)"

fun omap_erase :: "('k \<Rightarrow> 'k \<Rightarrow> bool) \<Rightarrow> 'k \<Rightarrow> ('k \<times> 'v) list \<Rightarrow> ('k \<times> 'v) list" where
  "omap_erase lt k [] = []"
| "omap_erase lt k ((k', v') # xs) =
     (if \<not> lt k k' \<and> \<not> lt k' k then xs else (k', v') # omap_erase lt k xs)"

definition omap_begin :: "('k \<times> 'v) list \<Rightarrow> ('k \<times> 'v) option" where
  "omap_begin xs = (case xs of [] \<Rightarrow> None | kv # _ \<Rightarrow> Some kv)"

text \<open>
  The outer container is a hash map keyed by the session id: keys are compared by
  equality and the order of the entries carries no meaning.
\<close>

fun umap_find :: "'s \<Rightarrow> ('s \<times> 'v) list \<Rightarrow> 'v option" where
  "umap_find s [] = None"
| "umap_find s ((s', v') # xs) = (if s = s' then Some v' else umap_find s xs)"

fun umap_assign :: "'s \<Rightarrow> 'v \<Rightarrow> ('s \<times> 'v) list \<Rightarrow> ('s \<times> 'v) list" where
  "umap_assign s v [] = [(s, v)]"
| "umap_assign s v ((s', v') # xs) =
     (if s = s' then (s', v) # xs else (s', v') # umap_assign s v xs)"

fun umap_erase :: "'s \<Rightarrow> ('s \<times> 'v) list \<Rightarrow> ('s \<times> 'v) list" where
  "umap_erase s [] = []"
| "umap_erase s ((s', v') # xs) =
     (if s = s' then xs else (s', v') # umap_erase s xs)"

section \<open>The coordinator catalog\<close>

type_synonym txn_number = int

text \<open>
  Modelled from the spec: the comparator of the inner map. The header that declares the
  type of the member \<open>_coordinatorsBySession\<close> is not among the sources; the spec's policy
  for the latest transaction keeps the transaction numbers in an ordered structure whose
  first entry is the maximum, and \<open>getLatestOnSession\<close> names the entry at \<open>begin()\<close>
  the last coordinator on the session. So a larger transaction number comes first.
\<close>

definition txn_before :: "txn_number \<Rightarrow> txn_number \<Rightarrow> bool" where
  "txn_before a b = (b < a)"

type_synonym 'c coordinators_for_session = "(txn_number \<times> 'c) list"

record ('s, 'c) catalog =
  coordinatorsBySession :: "('s \<times> 'c coordinators_for_session) list"
  stepUpCompletionStatus :: "status option"

definition empty_catalog :: "('s, 'c) catalog" where
  "empty_catalog = \<lparr>coordinatorsBySession = [], stepUpCompletionStatus = None\<rparr>"

text \<open>
  \<open>_waitForStepUpToComplete\<close>: waits until the step-up status is set, then throws it
  unless it is OK. A waiting call holds nothing and has changed nothing; when the
  predicate becomes true it goes on from the state of that moment. The interruption of
  the operation context, which the wait also listens to, is not part of the model.
\<close>

definition waitForStepUpToComplete :: "('s, 'c) catalog \<Rightarrow> unit outcome" where
  "waitForStepUpToComplete cat =
     (case stepUpCompletionStatus cat of
        None \<Rightarrow> Blocked
      | Some st \<Rightarrow> if isOK st then Returned () else Threw st)"

definition exitStepUp :: "status \<Rightarrow> ('s, 'c) catalog \<Rightarrow> ('s, 'c) catalog outcome" where
  "exitStepUp st cat =
     (if stepUpCompletionStatus cat \<noteq> None then Fatal
      else Returned (cat\<lparr>stepUpCompletionStatus := Some st\<rparr>))"

text \<open>
  \<open>onStepDown\<close>: collects every registered coordinator under the lock and cancels them
  after releasing it. The catalog itself is not changed; the result is the list of
  coordinators whose cancel hook is called, in order.
\<close>

definition onStepDown :: "('s, 'c) catalog \<Rightarrow> ('s, 'c) catalog \<times> 'c list" where
  "onStepDown cat =
     (cat, concat (map (\<lambda>(sessionId, coordinatorsForSession).
                          map snd coordinatorsForSession) (coordinatorsBySession cat)))"

text \<open>
  \<open>_coordinatorsBySession[lsid]\<close>: the entry of the session, created empty when the
  session has none. The result is the outer map after the access and the inner map the
  reference denotes.
\<close>

definition umap_index ::
  "'s \<Rightarrow> ('s \<times> ('k \<times> 'v) list) list \<Rightarrow> ('s \<times> ('k \<times> 'v) list) list \<times> ('k \<times> 'v) list" where
  "umap_index s outer =
     (case umap_find s outer of
        None \<Rightarrow> (outer @ [(s, [])], [])
      | Some inner \<Rightarrow> (outer, inner))"

text \<open>
  \<open>insert\<close>: the continuation that removes the entry on the coordinator's completion is
  registered after the lock is released and runs later, as a \<open>remove\<close> of its own.
\<close>

definition insert_coordinator ::
  "('s, 'c) catalog \<Rightarrow> 's \<Rightarrow> txn_number \<Rightarrow> 'c \<Rightarrow> bool \<Rightarrow> ('s, 'c) catalog outcome" where
  "insert_coordinator cat lsid txnNumber coordinator forStepUp =
     (case (if \<not> forStepUp then waitForStepUpToComplete cat else Returned ()) of
        Blocked \<Rightarrow> Blocked
      | Threw st \<Rightarrow> Threw st
      | Fatal \<Rightarrow> Fatal
      | Returned _ \<Rightarrow>
          (let (outer, coordinatorsForSession) = umap_index lsid (coordinatorsBySession cat)
           in if omap_find txn_before txnNumber coordinatorsForSession \<noteq> None then Fatal
              else Returned (cat\<lparr>coordinatorsBySession :=
                     umap_assign lsid
                       (omap_assign txn_before txnNumber coordinator coordinatorsForSession)
                       outer\<rparr>)))"

definition get_coordinator ::
  "('s, 'c) catalog \<Rightarrow> 's \<Rightarrow> txn_number \<Rightarrow> 'c option outcome" where
  "get_coordinator cat lsid txnNumber =
     (case waitForStepUpToComplete cat of
        Blocked \<Rightarrow> Blocked
      | Threw st \<Rightarrow> Threw st
      | Fatal \<Rightarrow> Fatal
      | Returned _ \<Rightarrow>
          Returned (case umap_find lsid (coordinatorsBySession cat) of
                      None \<Rightarrow> None
                    | Some coordinatorsForSession \<Rightarrow>
                        omap_find txn_before txnNumber coordinatorsForSession))"

definition getLatestOnSession ::
  "('s, 'c) catalog \<Rightarrow> 's \<Rightarrow> (txn_number \<times> 'c) option outcome" where
  "getLatestOnSession cat lsid =
     (case waitForStepUpToComplete cat of
        Blocked \<Rightarrow> Blocked
      | Threw st \<Rightarrow> Threw st
      | Fatal \<Rightarrow> Fatal
      | Returned _ \<Rightarrow>
          (case umap_find lsid (coordinatorsBySession cat) of
             None \<Rightarrow> Returned None
           | Some coordinatorsForSession \<Rightarrow>
               (case omap_begin coordinatorsForSession of
                  None \<Rightarrow> Fatal
                | Some lastCoordinatorOnSession \<Rightarrow> Returned (Some lastCoordinatorOnSession))))"

text \<open>
  \<open>_remove\<close>: the second component tells whether the waiters of \<open>join\<close> were
  notified.
\<close>

definition remove_coordinator ::
  "('s, 'c) catalog \<Rightarrow> 's \<Rightarrow> txn_number \<Rightarrow> ('s, 'c) catalog \<times> bool" where
  "remove_coordinator cat lsid txnNumber =
     (let cat' =
        (case umap_find lsid (coordinatorsBySession cat) of
           None \<Rightarrow> cat
         | Some coordinatorsForSession \<Rightarrow>
             (case omap_find txn_before txnNumber coordinatorsForSession of
                None \<Rightarrow> cat
              | Some coordinator \<Rightarrow>
                  (let erased = omap_erase txn_before txnNumber coordinatorsForSession
                   in if erased = []
                      then cat\<lparr>coordinatorsBySession :=
                                 umap_erase lsid (coordinatorsBySession cat)\<rparr>
                      else cat\<lparr>coordinatorsBySession :=
                                 umap_assign lsid erased (coordinatorsBySession cat)\<rparr>)))
      in (cat', coordinatorsBySession cat' = []))"

text \<open>
  \<open>join\<close>: every \<open>wait_for\<close> of the loop ends with an evaluation of the predicate
  on the catalog as it is at that moment, so the loop is run over the successive catalogs
  it gets to see. An evaluation that finds sessions left logs their number and the
  transaction numbers of each, and the loop waits again. The result holds the log and the
  catalog at which \<open>join\<close> returned, or \<open>None\<close> when it is still waiting after the
  last catalog given.
\<close>

definition listing :: "('s, 'c) catalog \<Rightarrow> ('s \<times> txn_number list) list" where
  "listing cat = map (\<lambda>(sessionId, coordinatorsForSession).
                        (sessionId, map fst coordinatorsForSession)) (coordinatorsBySession cat)"

fun join ::
  "('s, 'c) catalog list \<Rightarrow> (nat \<times> ('s \<times> txn_number list) list) list \<times> ('s, 'c) catalog option" where
  "join [] = ([], None)"
| "join (cat # later) =
     (if coordinatorsBySession cat = [] then ([], Some cat)
      else (case join later of
              (logged, r) \<Rightarrow> ((length (coordinatorsBySession cat), listing cat) # logged, r)))"

text \<open>The destructor is one call of \<open>join\<close>.\<close>

definition destroy_catalog ::
  "('s, 'c) catalog list \<Rightarrow> (nat \<times> ('s \<times> txn_number list) list) list \<times> ('s, 'c) catalog option" where
  "destroy_catalog observed = join observed"

subsection \<open>Calls as steps of the catalog\<close>

datatype ('s, 'c) catalog_call =
    Insert 's txn_number 'c bool
  | Get 's txn_number
  | GetLatestOnSession 's
  | OnStepDown
  | Remove 's txn_number
  | ExitStepUp status

text \<open>
  The catalog a call leaves behind: \<open>None\<close> when the call ends the process, the
  catalog unchanged when the call waits or throws.
\<close>

fun state_after :: "('s, 'c) catalog \<Rightarrow> ('s, 'c) catalog_call \<Rightarrow> ('s, 'c) catalog option" where
  "state_after cat (Insert lsid txnNumber coordinator forStepUp) =
     (case insert_coordinator cat lsid txnNumber coordinator forStepUp of
        Returned cat' \<Rightarrow> Some cat' | Fatal \<Rightarrow> None | _ \<Rightarrow> Some cat)"
| "state_after cat (Get lsid txnNumber) =
     (case get_coordinator cat lsid txnNumber of Fatal \<Rightarrow> None | _ \<Rightarrow> Some cat)"
| "state_after cat (GetLatestOnSession lsid) =
     (case getLatestOnSession cat lsid of Fatal \<Rightarrow> None | _ \<Rightarrow> Some cat)"
| "state_after cat OnStepDown = Some (fst (onStepDown cat))"
| "state_after cat (Remove lsid txnNumber) = Some (fst (remove_coordinator cat lsid txnNumber))"
| "state_after cat (ExitStepUp st) =
     (case exitStepUp st cat of Returned cat' \<Rightarrow> Some cat' | Fatal \<Rightarrow> None | _ \<Rightarrow> Some cat)"

inductive later_catalog :: "('s, 'c) catalog \<Rightarrow> ('s, 'c) catalog \<Rightarrow> bool" where
  now: "later_catalog cat cat"
| after_call: "later_catalog cat cat' \<Longrightarrow> state_after cat' call = Some cat'' \<Longrightarrow>
     later_catalog cat cat''"

subsection \<open>Invariants of the catalog\<close>

definition omap_sorted :: "(txn_number \<times> 'c) list \<Rightarrow> bool" where
  "omap_sorted xs = sorted_wrt txn_before (map fst xs)"

text \<open>
  The containers are well formed: a session has one entry in the hash map, and the
  entries of an inner map are in the order of its comparator.
\<close>

definition catalog_wf :: "('s, 'c) catalog \<Rightarrow> bool" where
  "catalog_wf cat =
     (distinct (map fst (coordinatorsBySession cat)) \<and>
      list_all (\<lambda>(sessionId, coordinatorsForSession). omap_sorted coordinatorsForSession)
        (coordinatorsBySession cat))"

text \<open>No session is present with an empty inner map.\<close>

definition no_empty_session :: "('s, 'c) catalog \<Rightarrow> bool" where
  "no_empty_session cat =
     list_all (\<lambda>(sessionId, coordinatorsForSession). coordinatorsForSession \<noteq> [])
       (coordinatorsBySession cat)"

section \<open>The asynchronous work scheduler\<close>

type_synonym opctx = nat
type_synonym handle = nat
type_synonym shard_id = string
type_synonym host = string
type_synonym read_pref = string
type_synonym bson = string

datatype cluster_role = RoleNone | ShardServer | ConfigServer

text \<open>
  What \<open>getLocalShardId\<close> reads: the cluster role of the process, the shard id that the
  sharding state holds, and the constant \<open>ShardRegistry::kConfigServerShardId\<close>, whose
  declaration is not among the sources and is taken as given.
\<close>

record service_context =
  clusterRole :: cluster_role
  shardingStateShardId :: shard_id
  kConfigServerShardId :: shard_id

text \<open>\<open>None\<close> is \<open>MONGO_UNREACHABLE\<close>: the process is not part of a sharded system.\<close>

definition getLocalShardId :: "service_context \<Rightarrow> shard_id option" where
  "getLocalShardId service =
     (if clusterRole service = ConfigServer then Some (kConfigServerShardId service)
      else if clusterRole service = ShardServer then Some (shardingStateShardId service)
      else None)"

text \<open>The calls a scheduler makes on its collaborators, in the order it makes them.\<close>

datatype event =
    ContextAdded opctx
  | ContextRemoved opctx
  | RunOperationContextFn opctx
  | GrantInternalAuthorization opctx
  | HandleRequest opctx bson
  | GetShard shard_id
  | FindHostWithMaxWait shard_id read_pref
  | ExecutorScheduleRemoteCommand host bson read_pref
  | UpdateReplSetMonitor host status
  | KillOperation opctx error_code
  | ExecutorCancel handle

record response =
  resp_status :: status
  resp_data :: bson

text \<open>
  A future: the task hit an \<open>invariant\<close> (\<open>Aborted\<close>), the future holds an error, it
  holds a value, or it waits for the response of the remote command behind a handle.
\<close>

datatype 'a future = Aborted | Failed status | Ready 'a | Pending handle

text \<open>
  What the collaborators answer: whether the caller's \<open>operationContextFn\<close> throws, the
  reply of the local request handler (its body and whether its document sequences are
  empty), the shard registry, the targeter, the network executor, and the two decoders of
  a command reply.
\<close>

record collaborators =
  operationContextFn_throws :: "status option"
  handleRequest_reply :: "bson \<Rightarrow> status + bson \<times> bool"
  getShard_result :: "shard_id \<Rightarrow> status + shard_id"
  findHostWithMaxWait_result :: "shard_id \<Rightarrow> read_pref \<Rightarrow> status + host"
  executor_scheduleRemoteCommand_result :: "host \<Rightarrow> bson \<Rightarrow> status + handle"
  getStatusFromCommandResult :: "bson \<Rightarrow> status"
  getWriteConcernStatusFromCommandResult :: "bson \<Rightarrow> status"

datatype scheduler =
  Scheduler (shutdownStatus: status) (activeOpContexts: "opctx list")
    (activeHandles: "handle list") (childSchedulers: "scheduler list")

definition status_OK :: status where
  "status_OK = \<lparr>st_code = OK, st_reason = []\<rparr>"

text \<open>
  Modelled from the spec: \<open>scheduleWork\<close>, a template of the header, which is not among
  the sources. It runs the callable with a fresh operation context that the node tracks
  from before the callable starts until it has finished for any reason, and returns a
  future for its result. Whether the node takes the work at all is not for the callable
  to decide: \<open>refused\<close> is the error of the future when it does not.
\<close>

definition scheduleWork ::
  "status option \<Rightarrow> opctx \<Rightarrow> (opctx \<Rightarrow> event list \<times> 'a future) \<Rightarrow> event list \<times> 'a future" where
  "scheduleWork refused opCtx task =
     (case refused of
        Some e \<Rightarrow> ([], Failed e)
      | None \<Rightarrow> (case task opCtx of
                   (evs, r) \<Rightarrow> (ContextAdded opCtx # evs @ [ContextRemoved opCtx], r)))"

text \<open>
  The callable of the local path of \<open>scheduleRemoteCommand\<close>. The two fail points are
  test hooks and are left out.
\<close>

definition local_task :: "collaborators \<Rightarrow> bson \<Rightarrow> opctx \<Rightarrow> event list \<times> response future" where
  "local_task ext commandObj opCtx =
     (case operationContextFn_throws ext of
        Some e \<Rightarrow> ([RunOperationContextFn opCtx], Failed e)
      | None \<Rightarrow>
          (let evs = [RunOperationContextFn opCtx, GrantInternalAuthorization opCtx,
                      HandleRequest opCtx commandObj]
           in case handleRequest_reply ext commandObj of
                Inl e \<Rightarrow> (evs, Failed e)
              | Inr (body, sequences_empty) \<Rightarrow>
                  if \<not> sequences_empty then (evs, Aborted)
                  else (evs, Ready \<lparr>resp_status = status_OK, resp_data = body\<rparr>)))"

text \<open>The callable of \<open>_targetHostAsync\<close>; its value is the host and the shard.\<close>

definition targetHost_task ::
  "collaborators \<Rightarrow> shard_id \<Rightarrow> read_pref \<Rightarrow> opctx \<Rightarrow> event list \<times> (host \<times> shard_id) future" where
  "targetHost_task ext shardId readPref opCtx =
     (case operationContextFn_throws ext of
        Some e \<Rightarrow> ([RunOperationContextFn opCtx], Failed e)
      | None \<Rightarrow>
          (case getShard_result ext shardId of
             Inl e \<Rightarrow> ([RunOperationContextFn opCtx, GetShard shardId], Failed e)
           | Inr shard \<Rightarrow>
               (let evs = [RunOperationContextFn opCtx, GetShard shardId,
                           FindHostWithMaxWait shard readPref]
                in case findHostWithMaxWait_result ext shard readPref of
                     Inl e \<Rightarrow> (evs, Failed e)
                   | Inr hostTargeted \<Rightarrow> (evs, Ready (hostTargeted, shard)))))"

definition targetHostAsync ::
  "collaborators \<Rightarrow> status option \<Rightarrow> opctx \<Rightarrow> shard_id \<Rightarrow> read_pref \<Rightarrow>
     event list \<times> (host \<times> shard_id) future" where
  "targetHostAsync ext refused opCtx shardId readPref =
     scheduleWork refused opCtx (targetHost_task ext shardId readPref)"

text \<open>
  The continuation of \<open>scheduleRemoteCommand\<close> that runs once the host is known, on the
  node as it is at that moment: under the node's lock it throws the shutdown status
  unless that is OK, hands the request to the network executor, throws the executor's
  refusal if there is one, and otherwise puts the handle at the front of the active
  handles.
\<close>

definition schedule_on_host ::
  "collaborators \<Rightarrow> scheduler \<Rightarrow> bson \<Rightarrow> read_pref \<Rightarrow> host \<times> shard_id \<Rightarrow>
     event list \<times> scheduler \<times> response future" where
  "schedule_on_host ext node commandObj readPref hostAndShard =
     (if \<not> isOK (shutdownStatus node) then ([], node, Failed (shutdownStatus node))
      else
        (let hostTargeted = fst hostAndShard;
             evs = [ExecutorScheduleRemoteCommand hostTargeted commandObj readPref]
         in case executor_scheduleRemoteCommand_result ext hostTargeted commandObj of
              Inl e \<Rightarrow> (evs, node, Failed e)
            | Inr scheduledCommandHandle \<Rightarrow>
                (evs,
                 Scheduler (shutdownStatus node) (activeOpContexts node)
                   (scheduledCommandHandle # activeHandles node) (childSchedulers node),
                 Pending scheduledCommandHandle)))"

text \<open>
  \<open>scheduleRemoteCommand\<close>. \<open>node\<close> is the scheduler at the moment the continuation
  after the targeting runs. \<open>None\<close> is the abort of \<open>getLocalShardId\<close>.
\<close>

definition scheduleRemoteCommand ::
  "service_context \<Rightarrow> collaborators \<Rightarrow> status option \<Rightarrow> opctx \<Rightarrow> scheduler \<Rightarrow>
     shard_id \<Rightarrow> read_pref \<Rightarrow> bson \<Rightarrow> (event list \<times> scheduler \<times> response future) option" where
  "scheduleRemoteCommand service ext refused opCtx node shardId readPref commandObj =
     (case getLocalShardId service of
        None \<Rightarrow> None
      | Some localShardId \<Rightarrow>
          (let isSelfShard = (shardId = localShardId)
           in if isSelfShard then
                (case scheduleWork refused opCtx (local_task ext commandObj) of
                   (evs, r) \<Rightarrow> Some (evs, node, r))
              else
                (case targetHostAsync ext refused opCtx shardId readPref of
                   (evs, Ready hostAndShard) \<Rightarrow>
                     (case schedule_on_host ext node commandObj readPref hostAndShard of
                        (evs', node', r) \<Rightarrow> Some (evs @ evs', node', r))
                 | (evs, Failed e) \<Rightarrow> Some (evs, node, Failed e)
                 | (evs, Aborted) \<Rightarrow> Some (evs, node, Aborted)
                 | (evs, Pending h) \<Rightarrow> Some (evs, node, Pending h))))"

text \<open>
  The callback the network executor runs with the response of a remote command: the
  error the promise gets, or the response itself.
\<close>

definition remote_command_callback ::
  "collaborators \<Rightarrow> scheduler \<Rightarrow> host \<Rightarrow> response \<Rightarrow> event list \<times> response future" where
  "remote_command_callback ext node hostTargeted resp =
     (let status = resp_status resp
      in if isOK status then
           ([UpdateReplSetMonitor hostTargeted status,
             UpdateReplSetMonitor hostTargeted (getStatusFromCommandResult ext (resp_data resp)),
             UpdateReplSetMonitor hostTargeted
               (getWriteConcernStatusFromCommandResult ext (resp_data resp))],
            Ready resp)
         else
           ([UpdateReplSetMonitor hostTargeted status],
            Failed (if st_code status = CallbackCanceled
                    then (if isOK (shutdownStatus node) then status else shutdownStatus node)
                    else status)))"

text \<open>
  \<open>shutdown\<close>. \<open>None\<close> is the failed \<open>invariant\<close> on the reason. The events are the
  kills, then the cancellations, then what the children do, child by child.
\<close>

fun shutdown :: "status \<Rightarrow> scheduler \<Rightarrow> (event list \<times> scheduler) option" where
  "shutdown status (Scheduler current opContexts handles children) =
     (if isOK status then None
      else if \<not> isOK current
        then Some ([], Scheduler current opContexts handles children)
      else
        (case those (map (shutdown status) children) of
           None \<Rightarrow> None
         | Some rs \<Rightarrow>
             Some (map (\<lambda>it. KillOperation it (st_code status)) opContexts
                     @ map ExecutorCancel handles @ concat (map fst rs),
                   Scheduler status opContexts handles (map snd rs))))"

text \<open>
  \<open>makeChildScheduler\<close>: the new child, shut down at once when the parent is, goes to the
  front of the parent's children. The result is the parent and the child.
\<close>

definition makeChildScheduler :: "scheduler \<Rightarrow> (scheduler \<times> scheduler) option" where
  "makeChildScheduler parent =
     (let fresh = Scheduler status_OK [] [] []
      in case (if \<not> isOK (shutdownStatus parent)
               then map_option snd (shutdown (shutdownStatus parent) fresh)
               else Some fresh) of
           None \<Rightarrow> None
         | Some child \<Rightarrow>
             Some (Scheduler (shutdownStatus parent) (activeOpContexts parent)
                     (activeHandles parent) (child # childSchedulers parent),
                   child))"

definition quiesced :: "scheduler \<Rightarrow> bool" where
  "quiesced node =
     (activeOpContexts node = [] \<and> activeHandles node = [] \<and> childSchedulers node = [])"

section \<open>Concrete catalogs and schedulers\<close>

definition ok_catalog :: "(nat, string) catalog" where
  "ok_catalog = \<lparr>coordinatorsBySession = [(1, [(5, ''c5''), (3, ''c3'')])],
                 stepUpCompletionStatus = Some status_OK\<rparr>"

definition recovery_failed :: status where
  "recovery_failed = \<lparr>st_code = ErrorCode 11602, st_reason = ''stepped down during recovery''\<rparr>"

definition failed_catalog :: "(nat, string) catalog" where
  "failed_catalog = \<lparr>coordinatorsBySession = [(1, [(5, ''c5'')])],
                     stepUpCompletionStatus = Some recovery_failed\<rparr>"

definition pending_catalog :: "(nat, string) catalog" where
  "pending_catalog = \<lparr>coordinatorsBySession = [(1, [(5, ''c5'')])],
                      stepUpCompletionStatus = None\<rparr>"

definition single_catalog :: "(nat, string) catalog" where
  "single_catalog = \<lparr>coordinatorsBySession = [(1, [(5, ''c5'')])],
                     stepUpCompletionStatus = Some status_OK\<rparr>"

definition stepping_down :: status where
  "stepping_down = \<lparr>st_code = ErrorCode 11602, st_reason = ''stepping down''\<rparr>"

definition canceled :: status where
  "canceled = \<lparr>st_code = CallbackCanceled, st_reason = ''Callback canceled''\<rparr>"

definition host_unreachable :: status where
  "host_unreachable = \<lparr>st_code = ErrorCode 6, st_reason = ''host unreachable''\<rparr>"

definition shard_service :: service_context where
  "shard_service = \<lparr>clusterRole = ShardServer, shardingStateShardId = ''shard0'',
                    kConfigServerShardId = ''config''\<rparr>"

definition answering :: collaborators where
  "answering = \<lparr>operationContextFn_throws = None,
                handleRequest_reply = (\<lambda>commandObj. Inr (''{ok: 1}'', True)),
                getShard_result = (\<lambda>shardId. Inr shardId),
                findHostWithMaxWait_result = (\<lambda>shard readPref. Inr (shard @ '':27017'')),
                executor_scheduleRemoteCommand_result = (\<lambda>hostTargeted commandObj. Inr 7),
                getStatusFromCommandResult = (\<lambda>data. status_OK),
                getWriteConcernStatusFromCommandResult = (\<lambda>data. status_OK)\<rparr>"

definition live_node :: scheduler where
  "live_node = Scheduler status_OK [1] [2] [Scheduler status_OK [3] [4] []]"

definition dead_node :: scheduler where
  "dead_node = Scheduler stepping_down [1] [2] []"

definition interrupted :: status where
  "interrupted = \<lparr>st_code = ErrorCode 11601, st_reason = ''interrupted''\<rparr>"

section \<open>Properties of the containers\<close>

lemma omap_find_txn: "omap_find txn_before k xs = map_of xs k"
  by (induction xs) (auto simp: txn_before_def)

lemma umap_find_map_of: "umap_find s xs = map_of xs s"
  by (induction xs) auto

lemma map_of_omap_assign: "map_of (omap_assign txn_before k v xs) = (map_of xs)(k \<mapsto> v)"
proof (induction xs)
  case Nil
  then show ?case by simp
next
  case (Cons kv xs)
  obtain k' v' where kv: "kv = (k', v')" by (cases kv)
  consider "k' < k" | "k < k'" | "k = k'" by linarith
  then show ?case
  proof cases
    case 1
    then show ?thesis by (auto simp add: kv txn_before_def fun_eq_iff)
  next
    case 2
    then show ?thesis using Cons.IH by (auto simp add: kv txn_before_def)
  next
    case 3
    then show ?thesis by (auto simp add: kv txn_before_def fun_eq_iff)
  qed
qed

lemma keys_omap_assign:
  "x \<in> set (omap_assign lt k v xs) \<Longrightarrow> fst x = k \<or> (\<exists>y\<in>set xs. fst x = fst y)"
  by (induction xs) (force split: if_splits)+

lemma keys_omap_erase: "set (omap_erase lt k xs) \<subseteq> set xs"
  by (induction xs) (auto split: if_splits)

lemma omap_sorted_assign: "omap_sorted xs \<Longrightarrow> omap_sorted (omap_assign txn_before k v xs)"
proof (induction xs)
  case Nil
  then show ?case by (simp add: omap_sorted_def)
next
  case (Cons kv xs)
  obtain k' v' where kv: "kv = (k', v')" by (cases kv)
  from Cons.prems have below: "\<forall>x\<in>set xs. txn_before k' (fst x)" and tl: "omap_sorted xs"
    by (auto simp: omap_sorted_def kv)
  consider "txn_before k k'" | "\<not> txn_before k k'" "txn_before k' k"
    | "\<not> txn_before k k'" "\<not> txn_before k' k" by blast
  then show ?case
  proof cases
    case 1
    then have "\<forall>x\<in>set xs. txn_before k (fst x)" using below by (auto simp: txn_before_def)
    with 1 Cons.prems show ?thesis by (simp add: omap_sorted_def kv)
  next
    case 2
    have "\<forall>x\<in>set (omap_assign txn_before k v xs). txn_before k' (fst x)"
      using keys_omap_assign[of _ txn_before k v xs] below 2 by fastforce
    with 2 Cons.IH[OF tl] show ?thesis by (simp add: omap_sorted_def kv)
  next
    case 3
    with Cons.prems show ?thesis by (simp add: omap_sorted_def kv)
  qed
qed

lemma omap_sorted_erase: "omap_sorted xs \<Longrightarrow> omap_sorted (omap_erase txn_before k xs)"
proof (induction xs)
  case Nil
  then show ?case by simp
next
  case (Cons kv xs)
  obtain k' v' where kv: "kv = (k', v')" by (cases kv)
  from Cons.prems have below: "\<forall>x\<in>set xs. txn_before k' (fst x)" and tl: "omap_sorted xs"
    by (auto simp: omap_sorted_def kv)
  have "\<forall>x\<in>set (omap_erase txn_before k xs). txn_before k' (fst x)"
    using keys_omap_erase[of txn_before k xs] below by auto
  with Cons.IH[OF tl] tl show ?case by (simp add: omap_sorted_def kv)
qed

lemma map_of_omap_erase:
  "omap_sorted xs \<Longrightarrow> map_of (omap_erase txn_before k xs) = (map_of xs)(k := None)"
proof (induction xs)
  case Nil
  then show ?case by simp
next
  case (Cons kv xs)
  obtain k' v' where kv: "kv = (k', v')" by (cases kv)
  from Cons.prems have below: "\<forall>x\<in>set xs. fst x < k'" and tl: "omap_sorted xs"
    by (auto simp: omap_sorted_def kv txn_before_def)
  show ?case
  proof (cases "k = k'")
    case True
    have "k' \<notin> fst ` set xs" using below by auto
    then have "map_of xs k' = None" by (simp add: map_of_eq_None_iff)
    then show ?thesis using True by (auto simp: kv txn_before_def fun_eq_iff)
  next
    case False
    then show ?thesis using Cons.IH[OF tl] by (auto simp: kv txn_before_def fun_eq_iff)
  qed
qed

lemma map_of_umap_assign: "map_of (umap_assign s v xs) = (map_of xs)(s \<mapsto> v)"
  by (induction xs) (auto simp: fun_eq_iff)

lemma keys_umap_assign:
  "map fst (umap_assign s v xs) =
     (if s \<in> set (map fst xs) then map fst xs else map fst xs @ [s])"
  by (induction xs) (force split: if_splits)+

lemma distinct_umap_assign:
  "distinct (map fst xs) \<Longrightarrow> distinct (map fst (umap_assign s v xs))"
  by (simp add: keys_umap_assign)

lemma set_umap_erase: "set (umap_erase s xs) \<subseteq> set xs"
  by (induction xs) (auto split: if_splits)

lemma distinct_umap_erase:
  "distinct (map fst xs) \<Longrightarrow> distinct (map fst (umap_erase s xs))"
proof (induction xs)
  case Nil
  then show ?case by simp
next
  case (Cons a xs)
  then show ?case using set_umap_erase[of s xs] by (cases a) auto
qed

lemma map_of_umap_erase:
  "distinct (map fst xs) \<Longrightarrow> map_of (umap_erase s xs) = (map_of xs)(s := None)"
proof (induction xs)
  case Nil
  then show ?case by simp
next
  case (Cons a xs)
  obtain s' v' where a: "a = (s', v')" by (cases a)
  show ?case
  proof (cases "s = s'")
    case True
    from Cons.prems have "s' \<notin> fst ` set xs" by (simp add: a)
    then have "map_of xs s' = None" by (simp add: map_of_eq_None_iff)
    then show ?thesis using True by (auto simp: a fun_eq_iff)
  next
    case False
    then show ?thesis using Cons by (auto simp: a fun_eq_iff)
  qed
qed

lemma omap_sorted_hd_Max:
  "omap_sorted ((t, c) # xs) \<Longrightarrow> Max (fst ` set ((t, c) # xs)) = t"
  by (intro Max_eqI) (auto simp: omap_sorted_def txn_before_def less_imp_le)


section \<open>Properties of the catalog\<close>

lemma list_all_umap_assign:
  "list_all (\<lambda>(s, inner). Q inner) xs \<Longrightarrow> Q v \<Longrightarrow>
   list_all (\<lambda>(s, inner). Q inner) (umap_assign k v xs)"
  by (induction xs) auto

lemma list_all_umap_erase:
  "list_all P xs \<Longrightarrow> list_all P (umap_erase k xs)"
  using set_umap_erase[of k xs] by (auto simp: list_all_iff)

lemma list_all_map_of:
  "list_all (\<lambda>(s, inner). Q inner) xs \<Longrightarrow> map_of xs k = Some v \<Longrightarrow> Q v"
  by (auto simp: list_all_iff dest: map_of_SomeD)

lemma omap_assign_not_Nil: "omap_assign lt k v xs \<noteq> []"
  by (cases xs) (auto split: if_splits)

lemma umap_assign_fresh_entry:
  "map_of xs s = None \<Longrightarrow> umap_assign s v (xs @ [(s, w)]) = umap_assign s v xs"
  by (induction xs) (auto split: if_splits)

lemma insert_coordinator_Returned:
  assumes "insert_coordinator cat s t c forStepUp = Returned cat'"
  shows "\<exists>outer inner. cat' = cat\<lparr>coordinatorsBySession :=
            umap_assign s (omap_assign txn_before t c inner) outer\<rparr> \<and>
          ((map_of (coordinatorsBySession cat) s = None \<and> inner = [] \<and>
            outer = coordinatorsBySession cat @ [(s, [])]) \<or>
           (map_of (coordinatorsBySession cat) s = Some inner \<and>
            outer = coordinatorsBySession cat))"
  using assms
  by (auto simp: insert_coordinator_def umap_index_def umap_find_map_of
      split: outcome.splits option.splits if_splits)

lemma insert_coordinator_wf:
  assumes "insert_coordinator cat s t c forStepUp = Returned cat'" and "catalog_wf cat"
  shows "catalog_wf cat'"
proof -
  from insert_coordinator_Returned[OF assms(1)] obtain outer inner where
    cat': "cat' = cat\<lparr>coordinatorsBySession :=
            umap_assign s (omap_assign txn_before t c inner) outer\<rparr>"
    and cases: "(map_of (coordinatorsBySession cat) s = None \<and> inner = [] \<and>
            outer = coordinatorsBySession cat @ [(s, [])]) \<or>
           (map_of (coordinatorsBySession cat) s = Some inner \<and>
            outer = coordinatorsBySession cat)" by blast
  from assms(2) have d: "distinct (map fst (coordinatorsBySession cat))"
    and a: "list_all (\<lambda>(s, inner). omap_sorted inner) (coordinatorsBySession cat)"
    by (simp_all add: catalog_wf_def)
  from cases have "distinct (map fst outer) \<and> list_all (\<lambda>(s, inner). omap_sorted inner) outer
      \<and> omap_sorted inner"
  proof
    assume h: "map_of (coordinatorsBySession cat) s = None \<and> inner = [] \<and>
            outer = coordinatorsBySession cat @ [(s, [])]"
    with d a show ?thesis
      by (auto simp: map_of_eq_None_iff omap_sorted_def)
  next
    assume h: "map_of (coordinatorsBySession cat) s = Some inner \<and>
            outer = coordinatorsBySession cat"
    with d a list_all_map_of[OF a, of s inner] show ?thesis by simp
  qed
  then show ?thesis
    by (simp add: cat' catalog_wf_def distinct_umap_assign list_all_umap_assign
        omap_sorted_assign)
qed

lemma insert_coordinator_no_empty:
  assumes "insert_coordinator cat s t c forStepUp = Returned cat'" and "no_empty_session cat"
  shows "no_empty_session cat'"
proof -
  from insert_coordinator_Returned[OF assms(1)] obtain outer inner where
    cat': "cat' = cat\<lparr>coordinatorsBySession :=
            umap_assign s (omap_assign txn_before t c inner) outer\<rparr>"
    and cases: "(map_of (coordinatorsBySession cat) s = None \<and> inner = [] \<and>
            outer = coordinatorsBySession cat @ [(s, [])]) \<or>
           (map_of (coordinatorsBySession cat) s = Some inner \<and>
            outer = coordinatorsBySession cat)" by blast
  let ?P = "\<lambda>(s :: 'a, inner :: (txn_number \<times> 'b) list). inner \<noteq> []"
  let ?new = "omap_assign txn_before t c inner"
  from assms(2) have a: "list_all ?P (coordinatorsBySession cat)"
    by (simp add: no_empty_session_def)
  have ne: "?new \<noteq> []" by (rule omap_assign_not_Nil)
  from cases have "list_all ?P (umap_assign s ?new outer)"
  proof
    assume h: "map_of (coordinatorsBySession cat) s = None \<and> inner = [] \<and>
            outer = coordinatorsBySession cat @ [(s, [])]"
    with umap_assign_fresh_entry[of "coordinatorsBySession cat" s ?new "[]"] have "umap_assign s ?new outer = umap_assign s ?new (coordinatorsBySession cat)"
      by simp
    with list_all_umap_assign[OF a, of ?new s] ne show ?thesis by simp
  next
    assume h: "map_of (coordinatorsBySession cat) s = Some inner \<and>
            outer = coordinatorsBySession cat"
    with list_all_umap_assign[OF a, of ?new s] ne show ?thesis by simp
  qed
  then show ?thesis by (simp add: cat' no_empty_session_def)
qed

lemma remove_coordinator_cases:
  "fst (remove_coordinator cat s t) = cat \<or>
   (\<exists>inner. map_of (coordinatorsBySession cat) s = Some inner \<and> map_of inner t \<noteq> None \<and>
      ((omap_erase txn_before t inner = [] \<and>
        fst (remove_coordinator cat s t) =
          cat\<lparr>coordinatorsBySession := umap_erase s (coordinatorsBySession cat)\<rparr>) \<or>
       (omap_erase txn_before t inner \<noteq> [] \<and>
        fst (remove_coordinator cat s t) =
          cat\<lparr>coordinatorsBySession :=
                umap_assign s (omap_erase txn_before t inner) (coordinatorsBySession cat)\<rparr>)))"
  by (auto simp: remove_coordinator_def umap_find_map_of omap_find_txn Let_def
      split: option.splits)

lemma remove_coordinator_wf:
  assumes "catalog_wf cat"
  shows "catalog_wf (fst (remove_coordinator cat s t))"
proof -
  from assms have d: "distinct (map fst (coordinatorsBySession cat))"
    and a: "list_all (\<lambda>(s, inner). omap_sorted inner) (coordinatorsBySession cat)"
    by (simp_all add: catalog_wf_def)
  from remove_coordinator_cases[of cat s t] show ?thesis
  proof (elim disjE exE conjE)
    assume "fst (remove_coordinator cat s t) = cat"
    with assms show ?thesis by simp
  next
    fix inner
    assume "fst (remove_coordinator cat s t) =
          cat\<lparr>coordinatorsBySession := umap_erase s (coordinatorsBySession cat)\<rparr>"
    with d a show ?thesis
      by (simp add: catalog_wf_def distinct_umap_erase list_all_umap_erase)
  next
    fix inner
    assume m: "map_of (coordinatorsBySession cat) s = Some inner"
      and r: "fst (remove_coordinator cat s t) =
          cat\<lparr>coordinatorsBySession :=
                umap_assign s (omap_erase txn_before t inner) (coordinatorsBySession cat)\<rparr>"
    from list_all_map_of[OF a m] have "omap_sorted (omap_erase txn_before t inner)"
      by (rule omap_sorted_erase)
    with d a r show ?thesis
      by (simp add: catalog_wf_def distinct_umap_assign list_all_umap_assign)
  qed
qed

lemma remove_coordinator_no_empty:
  assumes "no_empty_session cat"
  shows "no_empty_session (fst (remove_coordinator cat s t))"
proof -
  let ?P = "\<lambda>(s :: 'a, inner :: (txn_number \<times> 'b) list). inner \<noteq> []"
  from assms have a: "list_all ?P (coordinatorsBySession cat)"
    by (simp add: no_empty_session_def)
  from remove_coordinator_cases[of cat s t] show ?thesis
  proof (elim disjE exE conjE)
    assume "fst (remove_coordinator cat s t) = cat"
    with assms show ?thesis by simp
  next
    fix inner
    assume "fst (remove_coordinator cat s t) =
          cat\<lparr>coordinatorsBySession := umap_erase s (coordinatorsBySession cat)\<rparr>"
    with a show ?thesis
      by (simp add: no_empty_session_def list_all_umap_erase)
  next
    fix inner
    assume ne: "omap_erase txn_before t inner \<noteq> []"
      and r: "fst (remove_coordinator cat s t) =
          cat\<lparr>coordinatorsBySession :=
                umap_assign s (omap_erase txn_before t inner) (coordinatorsBySession cat)\<rparr>"
    from list_all_umap_assign[OF a, of "omap_erase txn_before t inner" s] ne r
    show ?thesis by (simp add: no_empty_session_def)
  qed
qed

lemma state_after_wf:
  assumes "state_after cat call = Some cat'" and "catalog_wf cat"
  shows "catalog_wf cat'"
proof (cases call)
  case (Insert s t c f)
  with assms show ?thesis
    by (auto split: outcome.splits dest: insert_coordinator_wf)
next
  case (Remove s t)
  with assms show ?thesis using remove_coordinator_wf[of cat s t] by auto
next
  case (ExitStepUp st)
  with assms show ?thesis
    by (auto simp: exitStepUp_def catalog_wf_def split: if_splits)
qed (use assms in \<open>auto simp: onStepDown_def split: outcome.splits\<close>)

lemma state_after_no_empty:
  assumes "state_after cat call = Some cat'" and "no_empty_session cat"
  shows "no_empty_session cat'"
proof (cases call)
  case (Insert s t c f)
  with assms show ?thesis
    by (auto split: outcome.splits dest: insert_coordinator_no_empty)
next
  case (Remove s t)
  with assms show ?thesis using remove_coordinator_no_empty[of cat s t] by auto
next
  case (ExitStepUp st)
  with assms show ?thesis
    by (auto simp: exitStepUp_def no_empty_session_def split: if_splits)
qed (use assms in \<open>auto simp: onStepDown_def split: outcome.splits\<close>)

lemma later_catalog_invariants:
  "later_catalog cat cat' \<Longrightarrow> catalog_wf cat \<and> no_empty_session cat \<Longrightarrow>
   catalog_wf cat' \<and> no_empty_session cat'"
  by (induction rule: later_catalog.induct) (auto dest: state_after_wf state_after_no_empty)

lemma empty_catalog_invariants: "catalog_wf empty_catalog \<and> no_empty_session empty_catalog"
  by (simp add: empty_catalog_def catalog_wf_def no_empty_session_def)

lemma get_coordinator_ok:
  "stepUpCompletionStatus cat = Some st \<Longrightarrow> isOK st \<Longrightarrow>
   get_coordinator cat s t =
     Returned (case map_of (coordinatorsBySession cat) s of
                 None \<Rightarrow> None | Some inner \<Rightarrow> map_of inner t)"
  by (simp add: get_coordinator_def waitForStepUpToComplete_def umap_find_map_of omap_find_txn
      split: option.splits)

lemma insert_coordinator_past_gate:
  "forStepUp \<or> (\<exists>st. stepUpCompletionStatus cat = Some st \<and> isOK st) \<Longrightarrow>
   insert_coordinator cat s t c forStepUp =
     (case map_of (coordinatorsBySession cat) s of
        None \<Rightarrow> Returned (cat\<lparr>coordinatorsBySession :=
                    umap_assign s [(t, c)] (coordinatorsBySession cat @ [(s, [])])\<rparr>)
      | Some inner \<Rightarrow>
          if map_of inner t \<noteq> None then Fatal
          else Returned (cat\<lparr>coordinatorsBySession :=
                 umap_assign s (omap_assign txn_before t c inner) (coordinatorsBySession cat)\<rparr>))"
  by (auto simp: insert_coordinator_def waitForStepUpToComplete_def umap_index_def
      umap_find_map_of omap_find_txn split: option.splits)

text \<open>
  Claim C2. Once the step-up has resolved ok, an \<open>insert\<close> of a coordinator \<open>c\<close>
  under a key \<open>(s, t)\<close> that has no coordinator returns, and in the catalog it leaves
  \<open>get s t\<close> returns \<open>c\<close>, while \<open>get s t'\<close> still returns nothing for every
  other transaction number \<open>t'\<close> that had no coordinator on the session.
\<close>

theorem insert_then_get:
  assumes gate: "stepUpCompletionStatus cat = Some st" "isOK st"
    and absent: "get_coordinator cat s t = Returned None"
  shows "\<exists>cat'. insert_coordinator cat s t c forStepUp = Returned cat' \<and>
           get_coordinator cat' s t = Returned (Some c) \<and>
           (\<forall>t'. t' \<noteq> t \<longrightarrow> get_coordinator cat s t' = Returned None \<longrightarrow>
                 get_coordinator cat' s t' = Returned None)"
proof (cases "map_of (coordinatorsBySession cat) s")
  case None
  let ?cat' = "cat\<lparr>coordinatorsBySession :=
                    umap_assign s [(t, c)] (coordinatorsBySession cat @ [(s, [])])\<rparr>"
  have ins: "insert_coordinator cat s t c forStepUp = Returned ?cat'"
    using gate None by (simp add: insert_coordinator_past_gate)
  have g: "stepUpCompletionStatus ?cat' = Some st" using gate by simp
  show ?thesis
    using ins by (simp add: get_coordinator_ok[OF g gate(2)] map_of_umap_assign)
next
  case (Some inner)
  from absent have free: "map_of inner t = None"
    by (simp add: get_coordinator_ok[OF gate] Some)
  let ?cat' = "cat\<lparr>coordinatorsBySession :=
                 umap_assign s (omap_assign txn_before t c inner) (coordinatorsBySession cat)\<rparr>"
  have ins: "insert_coordinator cat s t c forStepUp = Returned ?cat'"
    using gate Some free by (simp add: insert_coordinator_past_gate)
  have g: "stepUpCompletionStatus ?cat' = Some st" using gate by simp
  show ?thesis
    using ins
    by (simp add: get_coordinator_ok[OF g gate(2)] get_coordinator_ok[OF gate] Some
        map_of_umap_assign map_of_omap_assign)
qed

theorem insert_then_get_witness:
  "insert_coordinator ok_catalog 1 4 ''c4'' False =
     Returned \<lparr>coordinatorsBySession = [(1, [(5, ''c5''), (4, ''c4''), (3, ''c3'')])],
               stepUpCompletionStatus = Some status_OK\<rparr> \<and>
   get_coordinator \<lparr>coordinatorsBySession = [(1::nat, [(5, ''c5''), (4, ''c4''), (3, ''c3'')])],
                    stepUpCompletionStatus = Some status_OK\<rparr> 1 4 = Returned (Some ''c4'') \<and>
   get_coordinator \<lparr>coordinatorsBySession = [(1::nat, [(5, ''c5''), (4, ''c4''), (3, ''c3'')])],
                    stepUpCompletionStatus = Some status_OK\<rparr> 1 7 = Returned None"
proof -
  have gate: "stepUpCompletionStatus ok_catalog = Some status_OK" "isOK status_OK"
    by (simp_all add: ok_catalog_def isOK_def status_OK_def)
  have absent: "get_coordinator ok_catalog 1 4 = Returned None"
    by (simp add: get_coordinator_def waitForStepUpToComplete_def ok_catalog_def isOK_def
        status_OK_def txn_before_def)
  have absent7: "get_coordinator ok_catalog 1 7 = Returned None"
    by (simp add: get_coordinator_def waitForStepUpToComplete_def ok_catalog_def isOK_def
        status_OK_def txn_before_def)
  have ins: "insert_coordinator ok_catalog 1 4 ''c4'' False =
     Returned \<lparr>coordinatorsBySession = [(1, [(5, ''c5''), (4, ''c4''), (3, ''c3'')])],
               stepUpCompletionStatus = Some status_OK\<rparr>"
    by (simp add: insert_coordinator_def waitForStepUpToComplete_def ok_catalog_def isOK_def
        status_OK_def txn_before_def umap_index_def)
  from insert_then_get[OF gate absent, of "''c4''" False] ins absent7
  show ?thesis by auto
qed

lemma getLatestOnSession_ok:
  "stepUpCompletionStatus cat = Some st \<Longrightarrow> isOK st \<Longrightarrow>
   getLatestOnSession cat s =
     (case map_of (coordinatorsBySession cat) s of
        None \<Rightarrow> Returned None
      | Some [] \<Rightarrow> Fatal
      | Some (kv # rest) \<Rightarrow> Returned (Some kv))"
  by (simp add: getLatestOnSession_def waitForStepUpToComplete_def umap_find_map_of
      omap_begin_def split: option.splits list.splits)

text \<open>
  Claim C1. With the step-up resolved ok, \<open>getLatestOnSession\<close> returns nothing exactly
  when the session is absent from the catalog, and for a session that has a coordinator it
  returns the pair of the largest transaction number registered on the session and the
  coordinator registered under that number. The inner maps are in the order of
  \<open>txn_before\<close>, as every catalog the calls build is.
\<close>

theorem getLatestOnSession_is_maximum:
  assumes gate: "stepUpCompletionStatus cat = Some st" "isOK st"
    and wf: "catalog_wf cat"
  shows "(getLatestOnSession cat s = Returned None \<longleftrightarrow>
            umap_find s (coordinatorsBySession cat) = None) \<and>
         (\<forall>inner. umap_find s (coordinatorsBySession cat) = Some inner \<longrightarrow> inner \<noteq> [] \<longrightarrow>
            (\<exists>c. getLatestOnSession cat s = Returned (Some (Max (fst ` set inner), c)) \<and>
                 get_coordinator cat s (Max (fst ` set inner)) = Returned (Some c)))"
proof (intro conjI allI impI)
  show "getLatestOnSession cat s = Returned None \<longleftrightarrow>
          umap_find s (coordinatorsBySession cat) = None"
    by (simp add: getLatestOnSession_ok[OF gate] umap_find_map_of
        split: option.splits list.splits)
next
  fix inner :: "(txn_number \<times> 'b) list"
  assume present: "umap_find s (coordinatorsBySession cat) = Some inner" and ne: "inner \<noteq> []"
  then have m: "map_of (coordinatorsBySession cat) s = Some inner"
    by (simp add: umap_find_map_of)
  from wf have "list_all (\<lambda>(s, inner). omap_sorted inner) (coordinatorsBySession cat)"
    by (simp add: catalog_wf_def)
  from list_all_map_of[OF this m] have sorted: "omap_sorted inner" .
  from ne obtain t c rest where inner: "inner = (t, c) # rest" by (cases inner) auto
  from sorted have mx: "Max (fst ` set inner) = t"
    unfolding inner by (rule omap_sorted_hd_Max)
  have "getLatestOnSession cat s = Returned (Some (t, c))"
    by (simp add: getLatestOnSession_ok[OF gate] m inner)
  moreover have "get_coordinator cat s t = Returned (Some c)"
    by (simp add: get_coordinator_ok[OF gate] m inner)
  ultimately show "\<exists>c. getLatestOnSession cat s = Returned (Some (Max (fst ` set inner), c)) \<and>
                 get_coordinator cat s (Max (fst ` set inner)) = Returned (Some c)"
    using mx by simp
qed

theorem getLatestOnSession_is_maximum_witness:
  "getLatestOnSession ok_catalog 1 = Returned (Some (5, ''c5'')) \<and>
   Max (fst ` set [(5 :: int, ''c5''), (3, ''c3'')]) = 5 \<and>
   getLatestOnSession ok_catalog 2 = Returned None \<and>
   umap_find 2 (coordinatorsBySession ok_catalog) = None"
proof -
  have gate: "stepUpCompletionStatus ok_catalog = Some status_OK" "isOK status_OK"
    by (simp_all add: ok_catalog_def isOK_def status_OK_def)
  have wf: "catalog_wf ok_catalog"
    by (simp add: ok_catalog_def catalog_wf_def omap_sorted_def txn_before_def)
  have present: "umap_find 1 (coordinatorsBySession ok_catalog) = Some [(5, ''c5''), (3, ''c3'')]"
    and absent: "umap_find 2 (coordinatorsBySession ok_catalog) = None"
    by (simp_all add: ok_catalog_def)
  have mx: "Max (fst ` set [(5 :: int, ''c5''), (3, ''c3'')]) = 5" by simp
  from getLatestOnSession_is_maximum[OF gate wf, of 1] present mx
  have a: "\<exists>c. getLatestOnSession ok_catalog 1 = Returned (Some (5, c)) \<and>
              get_coordinator ok_catalog 1 5 = Returned (Some c)"
    by force
  have g: "get_coordinator ok_catalog 1 5 = Returned (Some ''c5'')"
    by (simp add: get_coordinator_def waitForStepUpToComplete_def ok_catalog_def isOK_def
        status_OK_def txn_before_def)
  from getLatestOnSession_is_maximum[OF gate wf, of 2] absent
  have b: "getLatestOnSession ok_catalog 2 = Returned None" by simp
  from a g b mx absent show ?thesis by auto
qed

text \<open>The entry at the front of an inner map is the first of its comparator's order,
  whatever the comparator.\<close>

lemma getLatestOnSession_front:
  "getLatestOnSession cat s = Returned (Some kv) \<Longrightarrow>
   \<exists>inner. umap_find s (coordinatorsBySession cat) = Some (kv # inner)"
  by (auto simp: getLatestOnSession_def omap_begin_def
      split: outcome.splits option.splits list.splits)

text \<open>
  Claim C3, amended. An \<open>insert\<close> under a key that already has a coordinator never
  returns, and the catalog keeps the entry it had. A call that gets past the step-up gate
  (\<open>forStepUp\<close> is true, or the step-up has resolved ok) fails the \<open>invariant\<close>; a call
  with \<open>forStepUp\<close> false waits while the step-up is unresolved and throws the status of
  a failed step-up.
\<close>

theorem duplicate_insert:
  assumes "umap_find s (coordinatorsBySession cat) = Some inner"
    and "omap_find txn_before t inner = Some c"
  shows "insert_coordinator cat s t c' forStepUp =
           (if forStepUp then Fatal
            else case stepUpCompletionStatus cat of
                   None \<Rightarrow> Blocked
                 | Some st \<Rightarrow> if isOK st then Fatal else Threw st) \<and>
         (\<forall>cat'. insert_coordinator cat s t c' forStepUp \<noteq> Returned cat') \<and>
         (\<forall>cat'. state_after cat (Insert s t c' forStepUp) = Some cat' \<longrightarrow> cat' = cat)"
  using assms
  by (auto simp: insert_coordinator_def waitForStepUpToComplete_def umap_index_def
      split: option.splits)

text \<open>
  Claim C3 as stated fails behind a failed step-up. The catalog below is built by an
  \<open>insert\<close> for step-up followed by \<open>exitStepUp\<close> with a failure; a second \<open>insert\<close>
  under the registered key then throws that failure, which is a recoverable error, and no
  \<open>invariant\<close> fails.
\<close>

theorem duplicate_insert_counterexample:
  "later_catalog empty_catalog failed_catalog \<and>
   umap_find 1 (coordinatorsBySession failed_catalog) = Some [(5, ''c5'')] \<and>
   omap_find txn_before 5 [(5 :: int, ''c5'')] = Some ''c5'' \<and>
   insert_coordinator failed_catalog 1 5 ''d5'' False = Threw recovery_failed \<and>
   insert_coordinator failed_catalog 1 5 ''d5'' False \<noteq> Fatal"
proof -
  have s1: "state_after (empty_catalog :: (nat, string) catalog) (Insert 1 5 ''c5'' True)
              = Some pending_catalog"
    by (simp add: empty_catalog_def pending_catalog_def insert_coordinator_def umap_index_def)
  have s2: "state_after pending_catalog (ExitStepUp recovery_failed) = Some failed_catalog"
    by (simp add: failed_catalog_def pending_catalog_def exitStepUp_def)
  have "later_catalog empty_catalog failed_catalog"
    using later_catalog.after_call[OF later_catalog.after_call[OF later_catalog.now s1] s2] .
  moreover have "umap_find 1 (coordinatorsBySession failed_catalog) = Some [(5, ''c5'')]"
    by (simp add: failed_catalog_def)
  moreover have "omap_find txn_before 5 [(5 :: int, ''c5'')] = Some ''c5''"
    by (simp add: txn_before_def)
  moreover have "insert_coordinator failed_catalog 1 5 ''d5'' False = Threw recovery_failed"
    by (simp add: insert_coordinator_def waitForStepUpToComplete_def failed_catalog_def isOK_def
        recovery_failed_def)
  ultimately show ?thesis by simp
qed

theorem duplicate_insert_witness:
  "umap_find 1 (coordinatorsBySession ok_catalog) = Some [(5, ''c5''), (3, ''c3'')] \<and>
   omap_find txn_before 3 [(5, ''c5''), (3, ''c3'')] = Some ''c3'' \<and>
   insert_coordinator ok_catalog 1 3 ''d3'' False = Fatal \<and>
   insert_coordinator ok_catalog 1 3 ''d3'' True = Fatal \<and>
   state_after ok_catalog (Insert 1 3 ''d3'' False) = None"
proof -
  have a: "umap_find 1 (coordinatorsBySession ok_catalog) = Some [(5, ''c5''), (3, ''c3'')]"
    by (simp add: ok_catalog_def)
  have b: "omap_find txn_before 3 [(5, ''c5''), (3, ''c3'')] = Some ''c3''"
    by (simp add: txn_before_def)
  have g: "stepUpCompletionStatus ok_catalog = Some status_OK" "isOK status_OK"
    by (simp_all add: ok_catalog_def isOK_def status_OK_def)
  from duplicate_insert[OF a b, of "''d3''" False] g
  have c: "insert_coordinator ok_catalog 1 3 ''d3'' False = Fatal" by simp
  from duplicate_insert[OF a b, of "''d3''" True]
  have d: "insert_coordinator ok_catalog 1 3 ''d3'' True = Fatal" by simp
  from a b c d show ?thesis by simp
qed

text \<open>
  Claim C4. Every call (\<open>insert\<close>, \<open>get\<close>, \<open>getLatestOnSession\<close>, \<open>onStepDown\<close>,
  the removal on completion, \<open>exitStepUp\<close>) that starts from a catalog in which no
  session has an empty inner map leaves such a catalog; in a well-formed catalog the
  removal that empties the inner map of a session leaves the session absent from the
  outer map; and \<open>getLatestOnSession\<close> never meets the empty inner map its \<open>invariant\<close>
  excludes.
\<close>

theorem catalog_calls_keep_sessions_nonempty:
  assumes inv: "no_empty_session cat"
  shows "(\<forall>call cat'. state_after cat call = Some cat' \<longrightarrow> no_empty_session cat') \<and>
         (catalog_wf cat \<longrightarrow>
            (\<forall>s t inner. umap_find s (coordinatorsBySession cat) = Some inner \<longrightarrow>
               omap_find txn_before t inner \<noteq> None \<longrightarrow> omap_erase txn_before t inner = [] \<longrightarrow>
               umap_find s (coordinatorsBySession (fst (remove_coordinator cat s t))) = None)) \<and>
         (\<forall>s. getLatestOnSession cat s \<noteq> Fatal)"
proof (intro conjI allI impI)
  fix call cat'
  assume "state_after cat call = Some cat'"
  then show "no_empty_session cat'"
    using inv by (rule state_after_no_empty)
next
  fix s t and inner :: "(txn_number \<times> 'b) list"
  assume wf: "catalog_wf cat"
    and "umap_find s (coordinatorsBySession cat) = Some inner"
    "omap_find txn_before t inner \<noteq> None" "omap_erase txn_before t inner = []"
  then have "fst (remove_coordinator cat s t) =
      cat\<lparr>coordinatorsBySession := umap_erase s (coordinatorsBySession cat)\<rparr>"
    by (auto simp: remove_coordinator_def)
  moreover from wf have "distinct (map fst (coordinatorsBySession cat))"
    by (simp add: catalog_wf_def)
  ultimately show "umap_find s (coordinatorsBySession (fst (remove_coordinator cat s t))) = None"
    by (simp add: umap_find_map_of map_of_umap_erase)
next
  fix s
  from inv have a: "list_all (\<lambda>(s, inner). inner \<noteq> []) (coordinatorsBySession cat)"
    by (simp add: no_empty_session_def)
  show "getLatestOnSession cat s \<noteq> Fatal"
    using list_all_map_of[OF a, of s]
    by (auto simp: getLatestOnSession_def waitForStepUpToComplete_def omap_begin_def
        umap_find_map_of split: outcome.splits option.splits list.splits if_splits)
qed

theorem catalog_calls_keep_sessions_nonempty_witness:
  "catalog_wf single_catalog \<and> no_empty_session single_catalog \<and>
   state_after single_catalog (Remove 1 5) =
     Some \<lparr>coordinatorsBySession = [], stepUpCompletionStatus = Some status_OK\<rparr> \<and>
   no_empty_session \<lparr>coordinatorsBySession = ([] :: (nat \<times> (txn_number \<times> string) list) list),
                     stepUpCompletionStatus = Some status_OK\<rparr> \<and>
   umap_find 1 (coordinatorsBySession (fst (remove_coordinator single_catalog 1 5))) = None \<and>
   getLatestOnSession single_catalog 1 \<noteq> Fatal"
proof -
  have wf: "catalog_wf single_catalog"
    by (simp add: single_catalog_def catalog_wf_def omap_sorted_def)
  have inv: "no_empty_session single_catalog"
    by (simp add: single_catalog_def no_empty_session_def)
  have st: "state_after single_catalog (Remove 1 5) =
     Some \<lparr>coordinatorsBySession = [], stepUpCompletionStatus = Some status_OK\<rparr>"
    by (simp add: single_catalog_def remove_coordinator_def txn_before_def)
  have f: "umap_find 1 (coordinatorsBySession single_catalog) = Some [(5, ''c5'')]"
    "omap_find txn_before 5 [(5 :: int, ''c5'')] \<noteq> None"
    "omap_erase txn_before 5 [(5 :: int, ''c5'')] = []"
    by (simp_all add: single_catalog_def txn_before_def)
  note inst = catalog_calls_keep_sessions_nonempty[OF inv]
  from inst st have "no_empty_session \<lparr>coordinatorsBySession = ([] :: (nat \<times> (txn_number \<times> string) list) list),
                     stepUpCompletionStatus = Some status_OK\<rparr>" by blast
  moreover from inst wf f
  have "umap_find 1 (coordinatorsBySession (fst (remove_coordinator single_catalog 1 5))) = None"
    by blast
  moreover from inst have "getLatestOnSession single_catalog 1 \<noteq> Fatal" by blast
  ultimately show ?thesis using wf inv st by simp
qed

lemma state_after_stepUp:
  assumes "state_after cat call = Some cat'" and "stepUpCompletionStatus cat = Some st"
  shows "stepUpCompletionStatus cat' = Some st"
proof (cases call)
  case (Insert s t c f)
  with assms show ?thesis
    by (auto split: outcome.splits dest!: insert_coordinator_Returned)
next
  case (Remove s t)
  with assms show ?thesis using remove_coordinator_cases[of cat s t] by auto
next
  case (ExitStepUp e)
  with assms show ?thesis by (auto simp: exitStepUp_def)
qed (use assms in \<open>auto simp: onStepDown_def split: outcome.splits\<close>)

lemma later_catalog_stepUp:
  "later_catalog cat cat' \<Longrightarrow> stepUpCompletionStatus cat = Some st \<Longrightarrow>
   stepUpCompletionStatus cat' = Some st"
  by (induction rule: later_catalog.induct) (auto dest: state_after_stepUp)

text \<open>
  Claim C5. While the step-up status is unset, \<open>insert\<close> (not for step-up), \<open>get\<close> and
  \<open>getLatestOnSession\<close> wait. After \<open>exitStepUp\<close> with a status that is not OK, the same
  calls throw that status, at once and in every catalog that later calls lead to, and the
  catalog is left as it was.
\<close>

theorem step_up_gate:
  assumes "stepUpCompletionStatus cat = None"
  shows "insert_coordinator cat s t c False = Blocked \<and>
         get_coordinator cat s t = Blocked \<and>
         getLatestOnSession cat s = Blocked \<and>
         (\<not> isOK failure \<longrightarrow>
            (\<exists>cat'. exitStepUp failure cat = Returned cat' \<and>
               (\<forall>cat''. later_catalog cat' cat'' \<longrightarrow>
                  insert_coordinator cat'' s t c False = Threw failure \<and>
                  get_coordinator cat'' s t = Threw failure \<and>
                  getLatestOnSession cat'' s = Threw failure \<and>
                  state_after cat'' (Insert s t c False) = Some cat'')))"
proof (intro conjI impI)
  show "insert_coordinator cat s t c False = Blocked"
    using assms by (simp add: insert_coordinator_def waitForStepUpToComplete_def)
  show "get_coordinator cat s t = Blocked"
    using assms by (simp add: get_coordinator_def waitForStepUpToComplete_def)
  show "getLatestOnSession cat s = Blocked"
    using assms by (simp add: getLatestOnSession_def waitForStepUpToComplete_def)
next
  assume bad: "\<not> isOK failure"
  let ?cat' = "cat\<lparr>stepUpCompletionStatus := Some failure\<rparr>"
  have ex: "exitStepUp failure cat = Returned ?cat'"
    using assms by (simp add: exitStepUp_def)
  have "insert_coordinator cat'' s t c False = Threw failure \<and>
        get_coordinator cat'' s t = Threw failure \<and>
        getLatestOnSession cat'' s = Threw failure \<and>
        state_after cat'' (Insert s t c False) = Some cat''"
    if "later_catalog ?cat' cat''" for cat''
  proof -
    from later_catalog_stepUp[OF that, of failure]
    have "stepUpCompletionStatus cat'' = Some failure" by simp
    with bad show ?thesis
      by (simp add: insert_coordinator_def get_coordinator_def getLatestOnSession_def
          waitForStepUpToComplete_def)
  qed
  with ex show "\<exists>cat'. exitStepUp failure cat = Returned cat' \<and>
               (\<forall>cat''. later_catalog cat' cat'' \<longrightarrow>
                  insert_coordinator cat'' s t c False = Threw failure \<and>
                  get_coordinator cat'' s t = Threw failure \<and>
                  getLatestOnSession cat'' s = Threw failure \<and>
                  state_after cat'' (Insert s t c False) = Some cat'')"
    by blast
qed

theorem step_up_gate_witness:
  "stepUpCompletionStatus pending_catalog = None \<and>
   insert_coordinator pending_catalog 1 7 ''c7'' False = Blocked \<and>
   get_coordinator pending_catalog 1 7 = Blocked \<and>
   getLatestOnSession pending_catalog 1 = Blocked \<and>
   \<not> isOK recovery_failed \<and>
   exitStepUp recovery_failed pending_catalog = Returned failed_catalog \<and>
   insert_coordinator failed_catalog 1 7 ''c7'' False = Threw recovery_failed \<and>
   get_coordinator failed_catalog 1 7 = Threw recovery_failed \<and>
   getLatestOnSession failed_catalog 1 = Threw recovery_failed"
proof -
  have p: "stepUpCompletionStatus pending_catalog = None"
    by (simp add: pending_catalog_def)
  have bad: "\<not> isOK recovery_failed"
    by (simp add: isOK_def recovery_failed_def)
  have ex: "exitStepUp recovery_failed pending_catalog = Returned failed_catalog"
    by (simp add: exitStepUp_def pending_catalog_def failed_catalog_def)
  note inst = step_up_gate[OF p, of 1 7 "''c7''" recovery_failed]
  from inst bad ex have "\<forall>cat''. later_catalog failed_catalog cat'' \<longrightarrow>
                  insert_coordinator cat'' 1 7 ''c7'' False = Threw recovery_failed \<and>
                  get_coordinator cat'' 1 7 = Threw recovery_failed \<and>
                  getLatestOnSession cat'' 1 = Threw recovery_failed \<and>
                  state_after cat'' (Insert 1 7 ''c7'' False) = Some cat''"
    by auto
  with later_catalog.now[of failed_catalog]
  have "insert_coordinator failed_catalog 1 7 ''c7'' False = Threw recovery_failed \<and>
        get_coordinator failed_catalog 1 7 = Threw recovery_failed \<and>
        getLatestOnSession failed_catalog 1 = Threw recovery_failed" by blast
  with inst p bad ex show ?thesis by simp
qed

lemma join_returned:
  "snd (join observed) = Some cat \<Longrightarrow>
   coordinatorsBySession cat = [] \<and>
   (\<exists>before after. observed = before @ cat # after \<and>
      (\<forall>b\<in>set before. coordinatorsBySession b \<noteq> []))"
proof (induction observed)
  case Nil
  then show ?case by simp
next
  case (Cons a observed)
  show ?case
  proof (cases "coordinatorsBySession a = []")
    case True
    with Cons.prems have "cat = a" by simp
    with True show ?thesis by (intro conjI exI[of _ "[]"] exI[of _ observed]) auto
  next
    case False
    with Cons.prems have "snd (join observed) = Some cat" by (simp split: prod.splits)
    from Cons.IH[OF this] obtain before after where
      e: "coordinatorsBySession cat = []" "observed = before @ cat # after"
      "\<forall>b\<in>set before. coordinatorsBySession b \<noteq> []" by blast
    with False show ?thesis
      by (intro conjI exI[of _ "a # before"] exI[of _ after]) auto
  qed
qed

lemma join_waiting:
  "snd (join observed) = None \<longleftrightarrow> (\<forall>cat\<in>set observed. coordinatorsBySession cat \<noteq> [])"
  by (induction observed) (auto split: prod.splits)

text \<open>
  Claim C9. The destructor, which is \<open>join\<close>, is still waiting exactly as long as no
  catalog it has seen was empty, and the catalog at which it returns is the first empty
  one: no session holds a coordinator at that moment.
\<close>

theorem destroy_waits_for_empty_catalog:
  "(snd (destroy_catalog observed) = None \<longleftrightarrow>
      (\<forall>cat\<in>set observed. coordinatorsBySession cat \<noteq> [])) \<and>
   (\<forall>cat. snd (destroy_catalog observed) = Some cat \<longrightarrow>
      coordinatorsBySession cat = [] \<and>
      (\<exists>before after. observed = before @ cat # after \<and>
         (\<forall>b\<in>set before. coordinatorsBySession b \<noteq> [])))"
  unfolding destroy_catalog_def using join_waiting[of observed] join_returned[of observed]
  by blast

theorem destroy_waits_for_empty_catalog_witness:
  "destroy_catalog [single_catalog, single_catalog,
       \<lparr>coordinatorsBySession = [], stepUpCompletionStatus = Some status_OK\<rparr>, single_catalog] =
     ([(1, [(1, [5])]), (1, [(1, [5])])],
      Some \<lparr>coordinatorsBySession = [], stepUpCompletionStatus = Some status_OK\<rparr>) \<and>
   snd (destroy_catalog [single_catalog, single_catalog]) = None"
proof -
  have a: "destroy_catalog [single_catalog, single_catalog,
       \<lparr>coordinatorsBySession = [], stepUpCompletionStatus = Some status_OK\<rparr>, single_catalog] =
     ([(1, [(1, [5])]), (1, [(1, [5])])],
      Some \<lparr>coordinatorsBySession = [], stepUpCompletionStatus = Some status_OK\<rparr>)"
    by (simp add: destroy_catalog_def single_catalog_def listing_def)
  have "\<forall>cat\<in>set [single_catalog, single_catalog]. coordinatorsBySession cat \<noteq> []"
    by (simp add: single_catalog_def)
  with destroy_waits_for_empty_catalog[of "[single_catalog, single_catalog]"]
  have "snd (destroy_catalog [single_catalog, single_catalog]) = None" by blast
  with a show ?thesis by simp
qed

section \<open>Properties of the scheduler\<close>

lemma getLocalShardId_identity:
  "getLocalShardId service = Some localShardId \<longleftrightarrow>
     (clusterRole service = ConfigServer \<and> localShardId = kConfigServerShardId service) \<or>
     (clusterRole service = ShardServer \<and> localShardId = shardingStateShardId service)"
  by (auto simp: getLocalShardId_def)

lemma scheduleWork_events:
  assumes "scheduleWork refused opCtx task = (evs, r)" and "ev \<in> set evs"
  shows "ev = ContextAdded opCtx \<or> ev = ContextRemoved opCtx \<or> ev \<in> set (fst (task opCtx))"
  using assms by (auto simp: scheduleWork_def split: option.splits prod.splits)

lemma local_task_events:
  "ev \<in> set (fst (local_task ext commandObj opCtx)) \<Longrightarrow>
   ev = RunOperationContextFn opCtx \<or> ev = GrantInternalAuthorization opCtx \<or>
   ev = HandleRequest opCtx commandObj"
  by (auto simp: local_task_def Let_def split: option.splits sum.splits prod.splits if_splits)

lemma targetHost_task_events:
  "ev \<in> set (fst (targetHost_task ext shardId readPref opCtx)) \<Longrightarrow>
   ev = RunOperationContextFn opCtx \<or> ev = GetShard shardId \<or>
   (\<exists>shard. ev = FindHostWithMaxWait shard readPref)"
  by (auto simp: targetHost_task_def Let_def split: option.splits sum.splits)

lemma targetHost_task_Ready:
  "targetHost_task ext shardId readPref opCtx = (evs, Ready hostAndShard) \<Longrightarrow>
   FindHostWithMaxWait (snd hostAndShard) readPref \<in> set evs"
  by (auto simp: targetHost_task_def Let_def split: option.splits sum.splits)

lemma targetHostAsync_Ready:
  "targetHostAsync ext refused opCtx shardId readPref = (evs, Ready hostAndShard) \<Longrightarrow>
   FindHostWithMaxWait (snd hostAndShard) readPref \<in> set evs"
  by (auto simp: targetHostAsync_def scheduleWork_def
      split: option.splits prod.splits dest: targetHost_task_Ready)

lemma targetHostAsync_events:
  assumes "targetHostAsync ext refused opCtx shardId readPref = (evs, r)" and "ev \<in> set evs"
  shows "ev = ContextAdded opCtx \<or> ev = ContextRemoved opCtx \<or>
         ev = RunOperationContextFn opCtx \<or> ev = GetShard shardId \<or>
         (\<exists>shard. ev = FindHostWithMaxWait shard readPref)"
  using scheduleWork_events[OF assms[unfolded targetHostAsync_def]] targetHost_task_events
  by blast

lemma targetHostAsync_not_Pending:
  "targetHostAsync ext refused opCtx shardId readPref \<noteq> (evs, Pending h)"
  by (auto simp: targetHostAsync_def scheduleWork_def targetHost_task_def Let_def
      split: option.splits prod.splits sum.splits)

lemma schedule_on_host_events:
  assumes "schedule_on_host ext node commandObj readPref hostAndShard = (evs, node', r)"
  shows "evs = [] \<or> evs = [ExecutorScheduleRemoteCommand (fst hostAndShard) commandObj readPref]"
  using assms by (auto simp: schedule_on_host_def Let_def split: if_splits sum.splits)

lemma other_shard_looks_up_host:
  assumes "getLocalShardId service = Some localShardId" and "shardId \<noteq> localShardId"
    and "operationContextFn_throws ext = None" and "getShard_result ext shardId = Inr shard"
  shows "\<exists>evs node' r.
           scheduleRemoteCommand service ext None opCtx node shardId readPref commandObj
             = Some (evs, node', r) \<and>
           FindHostWithMaxWait shard readPref \<in> set evs"
  using assms
  by (auto simp: scheduleRemoteCommand_def targetHostAsync_def scheduleWork_def
      targetHost_task_def Let_def split: sum.splits prod.splits future.splits)

text \<open>
  Claim C6. A command for the shard of this process goes through the local request
  handler: what \<open>scheduleRemoteCommand\<close> does is what the local callable does under
  \<open>scheduleWork\<close>, and neither the shard registry nor the targeter nor the network
  executor is called. A command for any other shard never reaches the local request
  handler, and whenever it is handed to the network executor the targeter has been asked
  for a host before, under the same read preference.
\<close>

theorem local_shard_skips_host_resolution:
  assumes "getLocalShardId service = Some localShardId"
  shows "(shardId = localShardId \<longrightarrow>
            (\<exists>evs r. scheduleRemoteCommand service ext refused opCtx node shardId readPref commandObj
                        = Some (evs, node, r) \<and>
                     scheduleWork refused opCtx (local_task ext commandObj) = (evs, r) \<and>
                     (\<forall>shard. GetShard shard \<notin> set evs) \<and>
                     (\<forall>shard rp. FindHostWithMaxWait shard rp \<notin> set evs) \<and>
                     (\<forall>h c rp. ExecutorScheduleRemoteCommand h c rp \<notin> set evs))) \<and>
         (shardId \<noteq> localShardId \<longrightarrow>
            (\<exists>evs node' r. scheduleRemoteCommand service ext refused opCtx node shardId readPref commandObj
                        = Some (evs, node', r) \<and>
                     (\<forall>c. HandleRequest opCtx c \<notin> set evs) \<and>
                     (\<forall>h c rp. ExecutorScheduleRemoteCommand h c rp \<in> set evs \<longrightarrow>
                        (\<exists>before after shard.
                           evs = before @ ExecutorScheduleRemoteCommand h c rp # after \<and>
                           FindHostWithMaxWait shard readPref \<in> set before \<and>
                           (\<forall>h' c' rp'. ExecutorScheduleRemoteCommand h' c' rp' \<notin> set before)))))"
proof (intro conjI impI)
  assume self: "shardId = localShardId"
  obtain evs r where sw: "scheduleWork refused opCtx (local_task ext commandObj) = (evs, r)"
    by (cases "scheduleWork refused opCtx (local_task ext commandObj)")
  have res: "scheduleRemoteCommand service ext refused opCtx node shardId readPref commandObj
               = Some (evs, node, r)"
    using assms self sw by (simp add: scheduleRemoteCommand_def)
  have ev: "ev = ContextAdded opCtx \<or> ev = ContextRemoved opCtx \<or>
            ev = RunOperationContextFn opCtx \<or> ev = GrantInternalAuthorization opCtx \<or>
            ev = HandleRequest opCtx commandObj" if "ev \<in> set evs" for ev
    using scheduleWork_events[OF sw that] local_task_events by blast
  have "(\<forall>shard. GetShard shard \<notin> set evs) \<and>
        (\<forall>shard rp. FindHostWithMaxWait shard rp \<notin> set evs) \<and>
        (\<forall>h c rp. ExecutorScheduleRemoteCommand h c rp \<notin> set evs)"
    using ev by blast
  with res sw show "\<exists>evs r. scheduleRemoteCommand service ext refused opCtx node shardId readPref commandObj
                        = Some (evs, node, r) \<and>
                     scheduleWork refused opCtx (local_task ext commandObj) = (evs, r) \<and>
                     (\<forall>shard. GetShard shard \<notin> set evs) \<and>
                     (\<forall>shard rp. FindHostWithMaxWait shard rp \<notin> set evs) \<and>
                     (\<forall>h c rp. ExecutorScheduleRemoteCommand h c rp \<notin> set evs)"
    by blast
next
  assume other: "shardId \<noteq> localShardId"
  obtain tevs tr where ta: "targetHostAsync ext refused opCtx shardId readPref = (tevs, tr)"
    by (cases "targetHostAsync ext refused opCtx shardId readPref")
  have tev: "ev = ContextAdded opCtx \<or> ev = ContextRemoved opCtx \<or>
         ev = RunOperationContextFn opCtx \<or> ev = GetShard shardId \<or>
         (\<exists>shard. ev = FindHostWithMaxWait shard readPref)" if "ev \<in> set tevs" for ev
    using targetHostAsync_events[OF ta that] .
  then have tnone: "(\<forall>c. HandleRequest opCtx c \<notin> set tevs) \<and>
      (\<forall>h c rp. ExecutorScheduleRemoteCommand h c rp \<notin> set tevs)"
    by blast
  show "\<exists>evs node' r. scheduleRemoteCommand service ext refused opCtx node shardId readPref commandObj
                        = Some (evs, node', r) \<and>
                     (\<forall>c. HandleRequest opCtx c \<notin> set evs) \<and>
                     (\<forall>h c rp. ExecutorScheduleRemoteCommand h c rp \<in> set evs \<longrightarrow>
                        (\<exists>before after shard.
                           evs = before @ ExecutorScheduleRemoteCommand h c rp # after \<and>
                           FindHostWithMaxWait shard readPref \<in> set before \<and>
                           (\<forall>h' c' rp'. ExecutorScheduleRemoteCommand h' c' rp' \<notin> set before)))"
  proof (cases tr)
    case (Ready hostAndShard)
    obtain sevs node' r where
      so: "schedule_on_host ext node commandObj readPref hostAndShard = (sevs, node', r)"
      by (cases "schedule_on_host ext node commandObj readPref hostAndShard")
    have res: "scheduleRemoteCommand service ext refused opCtx node shardId readPref commandObj
               = Some (tevs @ sevs, node', r)"
      using assms other ta Ready so by (simp add: scheduleRemoteCommand_def)
    from targetHostAsync_Ready[OF ta[unfolded Ready]]
    have found: "FindHostWithMaxWait (snd hostAndShard) readPref \<in> set tevs" .
    from schedule_on_host_events[OF so]
    have "evs = [] \<or> evs = [ExecutorScheduleRemoteCommand (fst hostAndShard) commandObj readPref]"
      if "evs = sevs" for evs using that by simp
    then have sev: "sevs = [] \<or>
        sevs = [ExecutorScheduleRemoteCommand (fst hostAndShard) commandObj readPref]" by simp
    have "\<exists>before after shard.
             tevs @ sevs = before @ ExecutorScheduleRemoteCommand h c rp # after \<and>
             FindHostWithMaxWait shard readPref \<in> set before \<and>
             (\<forall>h' c' rp'. ExecutorScheduleRemoteCommand h' c' rp' \<notin> set before)"
      if "ExecutorScheduleRemoteCommand h c rp \<in> set (tevs @ sevs)" for h c rp
    proof -
      from that tnone sev
      have "sevs = [ExecutorScheduleRemoteCommand h c rp]" by auto
      then have "tevs @ sevs = tevs @ ExecutorScheduleRemoteCommand h c rp # []" by simp
      with found tnone show ?thesis by blast
    qed
    moreover have "\<forall>c. HandleRequest opCtx c \<notin> set (tevs @ sevs)"
      using tnone sev by auto
    ultimately show ?thesis using res by blast
  next
    case Aborted
    then have "scheduleRemoteCommand service ext refused opCtx node shardId readPref commandObj
               = Some (tevs, node, Aborted)"
      using assms other ta by (simp add: scheduleRemoteCommand_def)
    with tnone show ?thesis by blast
  next
    case (Failed e)
    then have "scheduleRemoteCommand service ext refused opCtx node shardId readPref commandObj
               = Some (tevs, node, Failed e)"
      using assms other ta by (simp add: scheduleRemoteCommand_def)
    with tnone show ?thesis by blast
  next
    case (Pending h)
    then have "scheduleRemoteCommand service ext refused opCtx node shardId readPref commandObj
               = Some (tevs, node, Pending h)"
      using assms other ta by (simp add: scheduleRemoteCommand_def)
    with tnone show ?thesis by blast
  qed
qed

theorem local_shard_skips_host_resolution_witness:
  "getLocalShardId shard_service = Some ''shard0'' \<and>
   scheduleRemoteCommand shard_service answering None 9 live_node ''shard0'' ''primary'' ''{commit}''
     = Some ([ContextAdded 9, RunOperationContextFn 9, GrantInternalAuthorization 9,
              HandleRequest 9 ''{commit}'', ContextRemoved 9],
             live_node, Ready \<lparr>resp_status = status_OK, resp_data = ''{ok: 1}''\<rparr>) \<and>
   scheduleRemoteCommand shard_service answering None 9 live_node ''shard1'' ''primary'' ''{commit}''
     = Some ([ContextAdded 9, RunOperationContextFn 9, GetShard ''shard1'',
              FindHostWithMaxWait ''shard1'' ''primary'', ContextRemoved 9,
              ExecutorScheduleRemoteCommand ''shard1:27017'' ''{commit}'' ''primary''],
             Scheduler status_OK [1] [7, 2] [Scheduler status_OK [3] [4] []], Pending 7) \<and>
   FindHostWithMaxWait ''shard1'' ''primary'' \<notin>
     set [ContextAdded 9, RunOperationContextFn 9, GrantInternalAuthorization 9,
          HandleRequest 9 ''{commit}'', ContextRemoved 9]"
proof -
  have me: "getLocalShardId shard_service = Some ''shard0''"
    by (simp add: getLocalShardId_def shard_service_def)
  have loc: "scheduleRemoteCommand shard_service answering None 9 live_node ''shard0'' ''primary'' ''{commit}''
     = Some ([ContextAdded 9, RunOperationContextFn 9, GrantInternalAuthorization 9,
              HandleRequest 9 ''{commit}'', ContextRemoved 9],
             live_node, Ready \<lparr>resp_status = status_OK, resp_data = ''{ok: 1}''\<rparr>)"
    by (simp add: scheduleRemoteCommand_def getLocalShardId_def shard_service_def
        scheduleWork_def local_task_def answering_def)
  have rem: "scheduleRemoteCommand shard_service answering None 9 live_node ''shard1'' ''primary'' ''{commit}''
     = Some ([ContextAdded 9, RunOperationContextFn 9, GetShard ''shard1'',
              FindHostWithMaxWait ''shard1'' ''primary'', ContextRemoved 9,
              ExecutorScheduleRemoteCommand ''shard1:27017'' ''{commit}'' ''primary''],
             Scheduler status_OK [1] [7, 2] [Scheduler status_OK [3] [4] []], Pending 7)"
    by (simp add: scheduleRemoteCommand_def getLocalShardId_def shard_service_def
        scheduleWork_def targetHostAsync_def targetHost_task_def schedule_on_host_def
        answering_def live_node_def isOK_def status_OK_def)
  from local_shard_skips_host_resolution[OF me, of "''shard0''" answering None 9 live_node
      "''primary''" "''{commit}''"] loc
  have "FindHostWithMaxWait ''shard1'' ''primary'' \<notin>
     set [ContextAdded 9, RunOperationContextFn 9, GrantInternalAuthorization 9,
          HandleRequest 9 ''{commit}'', ContextRemoved 9]"
    by auto
  with me loc rem show ?thesis by simp
qed

text \<open>
  Claim C7. A response whose status has the code \<open>CallbackCanceled\<close> resolves the
  future with the shutdown status of the node when one is recorded, and with the
  cancellation status itself when none is; every other status that is not OK is passed on
  unchanged, and an OK status resolves the future with the response.
\<close>

theorem canceled_command_reports_shutdown_reason:
  "(isOK (resp_status resp) \<longrightarrow>
      snd (remote_command_callback ext node hostTargeted resp) = Ready resp) \<and>
   (st_code (resp_status resp) = CallbackCanceled \<and> \<not> isOK (shutdownStatus node) \<longrightarrow>
      snd (remote_command_callback ext node hostTargeted resp) = Failed (shutdownStatus node)) \<and>
   (st_code (resp_status resp) = CallbackCanceled \<and> isOK (shutdownStatus node) \<longrightarrow>
      snd (remote_command_callback ext node hostTargeted resp) = Failed (resp_status resp)) \<and>
   (\<not> isOK (resp_status resp) \<and> st_code (resp_status resp) \<noteq> CallbackCanceled \<longrightarrow>
      snd (remote_command_callback ext node hostTargeted resp) = Failed (resp_status resp))"
  by (simp add: remote_command_callback_def Let_def isOK_def)

theorem canceled_command_reports_shutdown_reason_witness:
  "snd (remote_command_callback answering dead_node ''shard1:27017''
          \<lparr>resp_status = canceled, resp_data = []\<rparr>) = Failed stepping_down \<and>
   snd (remote_command_callback answering live_node ''shard1:27017''
          \<lparr>resp_status = canceled, resp_data = []\<rparr>) = Failed canceled \<and>
   snd (remote_command_callback answering dead_node ''shard1:27017''
          \<lparr>resp_status = host_unreachable, resp_data = []\<rparr>) = Failed host_unreachable"
proof -
  have c: "st_code (resp_status \<lparr>resp_status = canceled, resp_data = []\<rparr>) = CallbackCanceled"
    by (simp add: canceled_def)
  have d: "\<not> isOK (shutdownStatus dead_node)"
    by (simp add: dead_node_def stepping_down_def isOK_def)
  have l: "isOK (shutdownStatus live_node)"
    by (simp add: live_node_def status_OK_def isOK_def)
  have u: "\<not> isOK (resp_status \<lparr>resp_status = host_unreachable, resp_data = []\<rparr>)"
    "st_code (resp_status \<lparr>resp_status = host_unreachable, resp_data = []\<rparr>) \<noteq> CallbackCanceled"
    by (simp_all add: host_unreachable_def isOK_def)
  have sd: "shutdownStatus dead_node = stepping_down" by (simp add: dead_node_def)
  from canceled_command_reports_shutdown_reason[of "\<lparr>resp_status = canceled, resp_data = []\<rparr>"
      answering dead_node "''shard1:27017''"] c d sd
  have 1: "snd (remote_command_callback answering dead_node ''shard1:27017''
          \<lparr>resp_status = canceled, resp_data = []\<rparr>) = Failed stepping_down" by simp
  from canceled_command_reports_shutdown_reason[of "\<lparr>resp_status = canceled, resp_data = []\<rparr>"
      answering live_node "''shard1:27017''"] c l
  have 2: "snd (remote_command_callback answering live_node ''shard1:27017''
          \<lparr>resp_status = canceled, resp_data = []\<rparr>) = Failed canceled" by simp
  from canceled_command_reports_shutdown_reason[of "\<lparr>resp_status = host_unreachable, resp_data = []\<rparr>"
      answering dead_node "''shard1:27017''"] u
  have 3: "snd (remote_command_callback answering dead_node ''shard1:27017''
          \<lparr>resp_status = host_unreachable, resp_data = []\<rparr>) = Failed host_unreachable" by simp
  from 1 2 3 show ?thesis by simp
qed

text \<open>
  Claim C10. On a node with a shutdown status recorded, the continuation that follows the
  targeting throws that status without calling the network executor and without adding a
  handle; so \<open>scheduleRemoteCommand\<close> for another shard leaves the node as it was, calls
  the network executor never, returns a future that neither waits for a response nor holds
  one, and fails it with the shutdown status when the targeting had succeeded.
\<close>

theorem no_remote_command_after_shutdown:
  assumes down: "\<not> isOK (shutdownStatus node)"
    and me: "getLocalShardId service = Some localShardId" and other: "shardId \<noteq> localShardId"
  shows "schedule_on_host ext node commandObj readPref hostAndShard
           = ([], node, Failed (shutdownStatus node)) \<and>
         (\<exists>evs r. scheduleRemoteCommand service ext refused opCtx node shardId readPref commandObj
                     = Some (evs, node, r) \<and>
                   (\<forall>h c rp. ExecutorScheduleRemoteCommand h c rp \<notin> set evs) \<and>
                   (\<forall>h. r \<noteq> Pending h) \<and>
                   (\<forall>value. r \<noteq> Ready value) \<and>
                   (\<forall>hs. snd (targetHostAsync ext refused opCtx shardId readPref) = Ready hs \<longrightarrow>
                      r = Failed (shutdownStatus node)))"
proof
  show so: "schedule_on_host ext node commandObj readPref hostAndShard
           = ([], node, Failed (shutdownStatus node))" for hostAndShard
    using down by (simp add: schedule_on_host_def)
  obtain tevs tr where ta: "targetHostAsync ext refused opCtx shardId readPref = (tevs, tr)"
    by (cases "targetHostAsync ext refused opCtx shardId readPref")
  have tnone: "\<forall>h c rp. ExecutorScheduleRemoteCommand h c rp \<notin> set tevs"
    using targetHostAsync_events[OF ta] by blast
  show "\<exists>evs r. scheduleRemoteCommand service ext refused opCtx node shardId readPref commandObj
                     = Some (evs, node, r) \<and>
                   (\<forall>h c rp. ExecutorScheduleRemoteCommand h c rp \<notin> set evs) \<and>
                   (\<forall>h. r \<noteq> Pending h) \<and>
                   (\<forall>value. r \<noteq> Ready value) \<and>
                   (\<forall>hs. snd (targetHostAsync ext refused opCtx shardId readPref) = Ready hs \<longrightarrow>
                      r = Failed (shutdownStatus node))"
  proof (cases tr)
    case (Ready hostAndShard)
    have "scheduleRemoteCommand service ext refused opCtx node shardId readPref commandObj
            = Some (tevs, node, Failed (shutdownStatus node))"
      using me other ta Ready so[of hostAndShard] by (simp add: scheduleRemoteCommand_def)
    with tnone ta show ?thesis by simp
  next
    case Aborted
    then have "scheduleRemoteCommand service ext refused opCtx node shardId readPref commandObj
               = Some (tevs, node, Aborted)"
      using me other ta by (simp add: scheduleRemoteCommand_def)
    with tnone ta Aborted show ?thesis by simp
  next
    case (Failed e)
    then have "scheduleRemoteCommand service ext refused opCtx node shardId readPref commandObj
               = Some (tevs, node, Failed e)"
      using me other ta by (simp add: scheduleRemoteCommand_def)
    with tnone ta Failed show ?thesis by simp
  next
    case (Pending h)
    with ta targetHostAsync_not_Pending show ?thesis by blast
  qed
qed

theorem no_remote_command_after_shutdown_witness:
  "\<not> isOK (shutdownStatus dead_node) \<and>
   getLocalShardId shard_service = Some ''shard0'' \<and>
   schedule_on_host answering dead_node ''{commit}'' ''primary'' (''shard1:27017'', ''shard1'')
     = ([], dead_node, Failed stepping_down) \<and>
   scheduleRemoteCommand shard_service answering None 9 dead_node ''shard1'' ''primary'' ''{commit}''
     = Some ([ContextAdded 9, RunOperationContextFn 9, GetShard ''shard1'',
              FindHostWithMaxWait ''shard1'' ''primary'', ContextRemoved 9],
             dead_node, Failed stepping_down)"
proof -
  have d: "\<not> isOK (shutdownStatus dead_node)"
    by (simp add: dead_node_def stepping_down_def isOK_def)
  have me: "getLocalShardId shard_service = Some ''shard0''"
    by (simp add: getLocalShardId_def shard_service_def)
  have other: "''shard1'' \<noteq> ''shard0''" by simp
  have sd: "shutdownStatus dead_node = stepping_down" by (simp add: dead_node_def)
  have ta: "targetHostAsync answering None 9 ''shard1'' ''primary'' =
      ([ContextAdded 9, RunOperationContextFn 9, GetShard ''shard1'',
        FindHostWithMaxWait ''shard1'' ''primary'', ContextRemoved 9],
       Ready (''shard1:27017'', ''shard1''))"
    by (simp add: targetHostAsync_def scheduleWork_def targetHost_task_def answering_def)
  note inst = no_remote_command_after_shutdown[OF d me other, of answering "''{commit}''"
      "''primary''" "(''shard1:27017'', ''shard1'')" None 9]
  from inst sd have 1: "schedule_on_host answering dead_node ''{commit}'' ''primary''
      (''shard1:27017'', ''shard1'') = ([], dead_node, Failed stepping_down)" by simp
  from inst ta sd obtain evs where
    "scheduleRemoteCommand shard_service answering None 9 dead_node ''shard1'' ''primary'' ''{commit}''
       = Some (evs, dead_node, Failed stepping_down)" by auto
  moreover have "scheduleRemoteCommand shard_service answering None 9 dead_node ''shard1'' ''primary'' ''{commit}''
       = Some ([ContextAdded 9, RunOperationContextFn 9, GetShard ''shard1'',
              FindHostWithMaxWait ''shard1'' ''primary'', ContextRemoved 9],
             dead_node, Failed stepping_down)"
    using ta 1 me by (simp add: scheduleRemoteCommand_def)
  ultimately show ?thesis using d me 1 by simp
qed

lemma those_map_total:
  assumes "\<forall>x\<in>set xs. \<exists>y. f x = Some y"
  shows "\<exists>ys. those (map f xs) = Some ys \<and> list_all2 (\<lambda>x y. f x = Some y) xs ys"
  using assms
proof (induction xs)
  case Nil
  then show ?case by simp
next
  case (Cons x xs)
  then obtain y ys where "f x = Some y" "those (map f xs) = Some ys"
    "list_all2 (\<lambda>x y. f x = Some y) xs ys" by auto
  then show ?case by (intro exI[of _ "y # ys"]) simp
qed

lemma shutdown_total:
  "\<not> isOK reason \<Longrightarrow> \<exists>r. shutdown reason node = Some r"
proof (induction node)
  case (Scheduler current opContexts handles children)
  then have "\<forall>child\<in>set children. \<exists>r. shutdown reason child = Some r" by blast
  from those_map_total[OF this] obtain rs where
    "those (map (shutdown reason) children) = Some rs" by blast
  with Scheduler.prems show ?case by simp
qed

text \<open>
  Claim C8. The first \<open>shutdown\<close> of a node records its reason, kills every active
  operation context with the code of the reason, cancels every active handle, and calls
  \<open>shutdown\<close> with the same reason on every child, in this order; it removes nothing
  from the node. On a node that has a reason recorded, every further \<open>shutdown\<close> does
  nothing and leaves the node, its reason included, as it was.
\<close>

theorem shutdown_first_reason_sticks:
  assumes reason: "\<not> isOK reason"
  shows "(isOK (shutdownStatus node) \<longrightarrow>
           (\<exists>rs. list_all2 (\<lambda>child r. shutdown reason child = Some r) (childSchedulers node) rs \<and>
              shutdown reason node =
                Some (map (\<lambda>it. KillOperation it (st_code reason)) (activeOpContexts node)
                        @ map ExecutorCancel (activeHandles node) @ concat (map fst rs),
                      Scheduler reason (activeOpContexts node) (activeHandles node) (map snd rs)))) \<and>
         (\<forall>evs node' again. shutdown reason node = Some (evs, node') \<longrightarrow> \<not> isOK again \<longrightarrow>
            \<not> isOK (shutdownStatus node') \<and> shutdown again node' = Some ([], node')) \<and>
         (\<not> isOK (shutdownStatus node) \<longrightarrow> shutdown reason node = Some ([], node))"
proof (cases node)
  case (Scheduler current opContexts handles children)
  have "\<forall>child\<in>set children. \<exists>r. shutdown reason child = Some r"
    using shutdown_total[OF reason] by blast
  from those_map_total[OF this] obtain rs where
    rs: "those (map (shutdown reason) children) = Some rs"
      "list_all2 (\<lambda>child r. shutdown reason child = Some r) children rs" by blast
  have first: "isOK current \<Longrightarrow> shutdown reason node =
      Some (map (\<lambda>it. KillOperation it (st_code reason)) opContexts
              @ map ExecutorCancel handles @ concat (map fst rs),
            Scheduler reason opContexts handles (map snd rs))"
    using reason rs(1) by (simp add: Scheduler)
  have later: "\<not> isOK current \<Longrightarrow> shutdown r node = Some ([], node)" if "\<not> isOK r" for r
    using that by (simp add: Scheduler)
  have sticky: "\<not> isOK (shutdownStatus node') \<and> shutdown again node' = Some ([], node')"
    if "shutdown reason node = Some (evs, node')" "\<not> isOK again" for evs node' again
  proof (cases "isOK current")
    case True
    from first[OF True] that(1)
    have "node' = Scheduler reason opContexts handles (map snd rs)" by simp
    with reason that(2) show ?thesis by simp
  next
    case False
    from later[OF reason False] that(1) have "node' = node" by simp
    with False later[OF that(2) False] show ?thesis by (simp add: Scheduler)
  qed
  show ?thesis
  proof (intro conjI impI allI)
    assume "isOK (shutdownStatus node)"
    then have "isOK current" by (simp add: Scheduler)
    from first[OF this] rs(2)
    show "\<exists>rs. list_all2 (\<lambda>child r. shutdown reason child = Some r) (childSchedulers node) rs \<and>
              shutdown reason node =
                Some (map (\<lambda>it. KillOperation it (st_code reason)) (activeOpContexts node)
                        @ map ExecutorCancel (activeHandles node) @ concat (map fst rs),
                      Scheduler reason (activeOpContexts node) (activeHandles node) (map snd rs))"
      by (auto simp: Scheduler)
  next
    fix evs node' again
    assume "shutdown reason node = Some (evs, node')" "\<not> isOK again"
    from sticky[OF this] show "\<not> isOK (shutdownStatus node')"
      "shutdown again node' = Some ([], node')" by simp_all
  next
    assume "\<not> isOK (shutdownStatus node)"
    then have "\<not> isOK current" by (simp add: Scheduler)
    from later[OF reason this] show "shutdown reason node = Some ([], node)" .
  qed
qed

theorem shutdown_first_reason_sticks_witness:
  "shutdown stepping_down live_node =
     Some ([KillOperation 1 (ErrorCode 11602), ExecutorCancel 2,
            KillOperation 3 (ErrorCode 11602), ExecutorCancel 4],
           Scheduler stepping_down [1] [2] [Scheduler stepping_down [3] [4] []]) \<and>
   shutdown interrupted (Scheduler stepping_down [1] [2] [Scheduler stepping_down [3] [4] []]) =
     Some ([], Scheduler stepping_down [1] [2] [Scheduler stepping_down [3] [4] []]) \<and>
   shutdown status_OK live_node = None"
proof -
  have r: "\<not> isOK stepping_down" "\<not> isOK interrupted"
    by (simp_all add: stepping_down_def interrupted_def isOK_def)
  have ok: "isOK status_OK" by (simp add: status_OK_def isOK_def)
  have 1: "shutdown stepping_down live_node =
     Some ([KillOperation 1 (ErrorCode 11602), ExecutorCancel 2,
            KillOperation 3 (ErrorCode 11602), ExecutorCancel 4],
           Scheduler stepping_down [1] [2] [Scheduler stepping_down [3] [4] []])"
    using r ok by (simp add: live_node_def) (simp add: stepping_down_def)
  from shutdown_first_reason_sticks[OF r(1), of live_node] 1 r(2)
  have 2: "shutdown interrupted (Scheduler stepping_down [1] [2] [Scheduler stepping_down [3] [4] []]) =
     Some ([], Scheduler stepping_down [1] [2] [Scheduler stepping_down [3] [4] []])"
    by blast
  have 3: "shutdown status_OK live_node = None"
    using ok by (simp add: live_node_def)
  from 1 2 3 show ?thesis by simp
qed

end
